theory Spec2Isabelle
  imports Complex_Main
begin

section \<open>Python values and exceptions\<close>

text \<open>
  The exception classes that matter to the command consumer: the four classes its
  handler names, \<open>OverflowError\<close> (raised by \<open>int\<close> on an infinite float; a subclass
  of \<open>ArithmeticError\<close>, so none of the four), and \<open>OtherError\<close> for any other class
  a collaborator may raise. A subclass is represented by the handled class it belongs
  to (\<open>FileNotFoundError\<close> by \<open>OSError\<close>, \<open>JSONDecodeError\<close> by \<open>ValueError\<close>).
\<close>

datatype exn = OSError | KeyError | ValueError | TypeError | OverflowError | OtherError string

text \<open>
  A Python float is a finite number, an infinity or NaN. No float arithmetic is done by
  the program: a float is only truncated by \<open>int\<close> and compared, so a finite float is
  its real value. A NaN equals nothing, itself included, and a dictionary finds it as
  a key by the identity of the object only: a NaN carries that identity, a number.
\<close>

datatype pyfloat = Finite real | PosInf | NegInf | NaN nat

text \<open>
  The field values a decoder hands over: strings and numbers, booleans (the defaults
  of \<open>draw\<close> and \<open>synchronously_draw\<close> are \<open>True\<close> and \<open>False\<close>) and \<open>None\<close> (the \<open>null\<close>
  of JSON). All of them are hashable.
\<close>

datatype pyval = PStr string | PInt int | PFloat pyfloat | PBool bool | PNone

text \<open>
  What a value is as the key of a dictionary. Numbers are compared by their value
  whatever their type, so \<open>1\<close>, \<open>1.0\<close> and \<open>True\<close> are one key, and equal numbers have
  equal hashes. A string equals strings only, \<open>None\<close> equals \<open>None\<close> only. A NaN is the
  key of its own object.
\<close>

datatype pykey = KStr string | KNum real | KPosInf | KNegInf | KNaN nat | KNone

fun dict_key :: "pyval \<Rightarrow> pykey" where
  "dict_key (PStr s) = KStr s"
| "dict_key (PInt i) = KNum (of_int i)"
| "dict_key (PBool b) = KNum (if b then 1 else 0)"
| "dict_key (PFloat (Finite r)) = KNum r"
| "dict_key (PFloat PosInf) = KPosInf"
| "dict_key (PFloat NegInf) = KNegInf"
| "dict_key (PFloat (NaN n)) = KNaN n"
| "dict_key PNone = KNone"

fun is_nan :: "pyval \<Rightarrow> bool" where
  "is_nan (PFloat (NaN n)) = True"
| "is_nan v = False"

text \<open>Python's \<open>a == b\<close> on these values; \<open>a != b\<close> is its negation.\<close>

definition py_eq :: "pyval \<Rightarrow> pyval \<Rightarrow> bool" where
  "py_eq a b = (dict_key a = dict_key b \<and> \<not> is_nan a)"

text \<open>
  Python's \<open>int\<close>, the converter of the numeric attributes. Parsing the text of a
  \<open>str\<close> is left to a parameter (\<open>None\<close> is the \<open>ValueError\<close> of an invalid literal).
\<close>

fun py_int :: "(string \<Rightarrow> int option) \<Rightarrow> pyval \<Rightarrow> exn + int" where
  "py_int p (PStr s) = (case p s of None \<Rightarrow> Inl ValueError | Some i \<Rightarrow> Inr i)"
| "py_int p (PInt i) = Inr i"
| "py_int p (PBool b) = Inr (if b then 1 else 0)"
| "py_int p (PFloat (Finite r)) = Inr (if 0 \<le> r then \<lfloor>r\<rfloor> else \<lceil>r\<rceil>)"
| "py_int p (PFloat PosInf) = Inl OverflowError"
| "py_int p (PFloat NegInf) = Inl OverflowError"
| "py_int p (PFloat (NaN n)) = Inl ValueError"
| "py_int p PNone = Inl TypeError"

text \<open>The test \<open>sub in s\<close> on two strings: \<open>sub\<close> occurs in \<open>s\<close> as a contiguous run.\<close>

fun starts_with :: "string \<Rightarrow> string \<Rightarrow> bool" where
  "starts_with [] s = True"
| "starts_with (c # cs) [] = False"
| "starts_with (c # cs) (d # ds) = (c = d \<and> starts_with cs ds)"

fun str_in :: "string \<Rightarrow> string \<Rightarrow> bool" where
  "str_in sub [] = (sub = [])"
| "str_in sub (c # cs) = (starts_with sub (c # cs) \<or> str_in sub cs)"

section \<open>Images (the Pillow interface used by \<open>load_image\<close>)\<close>

text \<open>
  An image is its mode, its size and its pixels in row order, each pixel a list with
  one value (0 to 255) per band.
\<close>

type_synonym pixel = "nat list"

record image =
  mode :: string
  imsize :: "nat \<times> nat"
  pixels :: "pixel list"

text \<open>The bands of Pillow's modes (\<open>Image.getbands\<close>).\<close>

definition mode_bands :: "string \<Rightarrow> string list" where
  "mode_bands m =
    (if m = ''1'' then [''1'']
     else if m = ''L'' then [''L'']
     else if m = ''P'' then [''P'']
     else if m = ''I'' then [''I'']
     else if m = ''F'' then [''F'']
     else if m = ''LA'' then [''L'', ''A'']
     else if m = ''La'' then [''L'', ''a'']
     else if m = ''PA'' then [''P'', ''A'']
     else if m = ''RGB'' then [''R'', ''G'', ''B'']
     else if m = ''YCbCr'' then [''Y'', ''Cb'', ''Cr'']
     else if m = ''LAB'' then [''L'', ''A'', ''B'']
     else if m = ''HSV'' then [''H'', ''S'', ''V'']
     else if m = ''RGBA'' then [''R'', ''G'', ''B'', ''A'']
     else if m = ''RGBa'' then [''R'', ''G'', ''B'', ''a'']
     else if m = ''RGBX'' then [''R'', ''G'', ''B'', ''X'']
     else if m = ''CMYK'' then [''C'', ''M'', ''Y'', ''K'']
     else [])"

definition getbands :: "image \<Rightarrow> string list" where
  "getbands im = mode_bands (mode im)"

text \<open>
  An image as Pillow holds it: as many pixels as its size says, each with one value per
  band of its mode.
\<close>

definition wf_image :: "image \<Rightarrow> bool" where
  "wf_image im =
    (length (pixels im) = fst (imsize im) * snd (imsize im)
     \<and> (\<forall>p \<in> set (pixels im). length p = length (getbands im)))"

section \<open>External collaborators\<close>

text \<open>
  What the program reads from outside itself is a parameter: the file system
  (\<open>os.path.getmtime\<close>, \<open>Image.open\<close> together with the decoding that \<open>load\<close> forces),
  Pillow's conversion of one pixel of an image to a mode, Pillow's mixing of two band
  values under a mask value strictly between 0 and 255, the line decoder selected at
  startup, \<open>conversion.to_bool\<close>, and the parsing of an integer literal.
\<close>

record env =
  getmtime :: "pyval \<Rightarrow> exn + real"
  image_open :: "pyval \<Rightarrow> exn + image"
  convert_px :: "image \<Rightarrow> string \<Rightarrow> pixel \<Rightarrow> pixel"
  blend :: "nat \<Rightarrow> nat \<Rightarrow> nat \<Rightarrow> nat"
  parse :: "string \<Rightarrow> exn + (string \<times> pyval) list"
  to_bool :: "pyval \<Rightarrow> exn + bool"
  str_to_int :: "string \<Rightarrow> int option"

subsection \<open>Pillow operations\<close>

text \<open>\<open>image.convert(m)\<close>: a new image of mode \<open>m\<close> and the same size.\<close>

definition convert :: "env \<Rightarrow> string \<Rightarrow> image \<Rightarrow> image" where
  "convert e m im =
     \<lparr>mode = m, imsize = imsize im, pixels = map (convert_px e im m) (pixels im)\<rparr>"

text \<open>\<open>image.split()\<close>: one single-band image of mode \<open>L\<close> per band.\<close>

definition split_im :: "image \<Rightarrow> image list" where
  "split_im im =
     map (\<lambda>i. \<lparr>mode = ''L'', imsize = imsize im, pixels = map (\<lambda>p. [p ! i]) (pixels im)\<rparr>)
         [0 ..< length (getbands im)]"

text \<open>\<open>Image.new(m, size, color)\<close>: every pixel is the colour.\<close>

definition new :: "string \<Rightarrow> nat \<times> nat \<Rightarrow> pixel \<Rightarrow> image" where
  "new m sz color = \<lparr>mode = m, imsize = sz, pixels = replicate (fst sz * snd sz) color\<rparr>"

text \<open>
  The colour a pixel of the pasted image gives to an \<open>RGB\<close> destination. \<open>paste\<close>
  copies the first three stored bytes of an \<open>RGBA\<close> or \<open>LA\<close> pixel (an \<open>LA\<close> pixel is
  stored as L, L, L, A) and converts an image of any other mode to \<open>RGB\<close> first. The
  alpha band is ignored.
\<close>

definition rgb_of :: "env \<Rightarrow> image \<Rightarrow> pixel \<Rightarrow> pixel" where
  "rgb_of e im p =
    (if mode im = ''RGB'' \<or> mode im = ''RGBA'' then take 3 p
     else if mode im = ''LA'' then [p ! 0, p ! 0, p ! 0]
     else convert_px e im ''RGB'' p)"

text \<open>
  One band under a mask value: where the mask is 255 the pasted value is copied, where
  it is 0 the current value is kept, values in between mix the two.
\<close>

definition paste_band :: "env \<Rightarrow> nat \<Rightarrow> nat \<Rightarrow> nat \<Rightarrow> nat" where
  "paste_band e m cur src =
    (if m = 0 then cur else if m = 255 then src else blend e m cur src)"

text \<open>
  \<open>dst.paste(im, mask=mask)\<close> and \<open>dst.paste(im)\<close> for an \<open>RGB\<close> destination of the
  size of \<open>im\<close> (no box): the destination is updated pixel by pixel.
\<close>

definition paste :: "env \<Rightarrow> image \<Rightarrow> image \<Rightarrow> image option \<Rightarrow> image" where
  "paste e dst im msk_opt =
    (case msk_opt of
       None \<Rightarrow> dst\<lparr>pixels := map (rgb_of e im) (pixels im)\<rparr>
     | Some msk \<Rightarrow>
         dst\<lparr>pixels :=
           map (\<lambda>(cur, src, m). map (\<lambda>(c, v). paste_band e (m ! 0) c v) (zip cur (rgb_of e im src)))
               (zip (pixels dst) (zip (pixels im) (pixels msk)))\<rparr>)"

section \<open>Placements, the view, windows and the process state\<close>

text \<open>
  Modelled from the spec: \<open>ui.OverlayWindow.Placement\<close> (the module \<open>ui\<close> is not among
  the sources), which \<open>AddImageAction.apply\<close> builds from nine positional arguments:
  the position, the sizes, the source path, the decoded image and the modification
  time of the source. \<open>apply\<close> reads \<open>path\<close>, \<open>image\<close> and \<open>last_modified\<close> back.
\<close>

record placement =
  pl_x :: int
  pl_y :: int
  pl_width :: int
  pl_height :: int
  pl_max_width :: int
  pl_max_height :: int
  pl_path :: pyval
  pl_image :: image
  pl_last_modified :: real

text \<open>
  Modelled from the spec: \<open>ui.View\<close>, the placements by identifier (the dictionary
  \<open>media\<close>, a map on the keys that the identifiers are) and the offset of the tmux
  pane.
\<close>

record view =
  media :: "pykey \<rightharpoonup> placement"
  offset :: "int \<times> int"

text \<open>
  Modelled from the spec: what \<open>xutil.get_parent_window_infos\<close> lists for a parent
  terminal window, its native id and its geometry.
\<close>

record window_info =
  window_id :: nat
  geometry :: "int \<times> int \<times> int \<times> int"

text \<open>
  Modelled from the spec: a \<open>ui.OverlayWindow\<close> is bound to one parent terminal window,
  whose id is \<open>window.parent_window.id\<close>.
\<close>

record window =
  parent_window :: window_info

text \<open>The tasks handed to \<open>asyncio.ensure_future\<close>.\<close>

datatype task = Redraw | Shutdown

text \<open>
  The state of the process: the view, the window list, the class attribute
  \<open>DrawAction.__redraw_scheduled\<close>, the tasks of the event loop that have not run yet,
  whether the loop has been stopped, and three logs of effects: every call of
  \<open>windows.draw()\<close> with the windows and the view it painted, every path handed to
  \<open>Image.open\<close>, and every error report printed.
\<close>

record state =
  view :: view
  windows :: "window list"
  redraw_scheduled :: bool
  pending :: "task list"
  stopped :: bool
  draws :: "(window list \<times> view) list"
  opened :: "pyval list"
  reports :: "exn list"

text \<open>
  Modelled from the spec: \<open>windows.draw()\<close> of \<open>batch.BatchList\<close> over
  \<open>ui.OverlayWindow\<close> (neither is among the sources) makes every window of the list
  repaint itself against the current view.
\<close>

definition windows_draw :: "state \<Rightarrow> state" where
  "windows_draw s = s\<lparr>draws := draws s @ [(windows s, view s)]\<rparr>"

section \<open>Actions (\<open>action.py\<close>)\<close>

text \<open>
  The attributes of the action classes, one record per class that adds some:
  \<open>DrawAction\<close> has \<open>action\<close> (from \<open>Action\<close>), \<open>draw\<close> and \<open>synchronously_draw\<close> (from
  \<open>Drawable\<close>); \<open>ImageAction\<close> adds \<open>identifier\<close> (from \<open>Identifiable\<close>);
  \<open>AddImageAction\<close> adds the position, the path and the sizes. \<open>identifier\<close> and
  \<open>path\<close> have no converter: they hold whatever value the decoder gave.
  \<open>RemoveImageAction\<close> adds nothing to \<open>ImageAction\<close>.
\<close>

record draw_action =
  action :: pyval
  draw :: bool
  synchronously_draw :: bool

record image_action = draw_action +
  identifier' :: pyval

record add_image_action = image_action +
  x :: int
  y :: int
  path :: pyval
  width :: int
  max_width :: int
  height :: int
  max_height :: int

type_synonym remove_image_action = image_action

subsection \<open>\<open>DrawAction\<close>\<close>

text \<open>\<open>asyncio.ensure_future\<close>: the task runs in a later iteration of the event loop.\<close>

definition ensure_future :: "task \<Rightarrow> state \<Rightarrow> state" where
  "ensure_future t s = s\<lparr>pending := pending s @ [t]\<rparr>"

text \<open>
  \<open>DrawAction.schedule_redraw\<close>: the redraw coroutine if none is waiting to run, else
  \<open>None\<close>.
\<close>

definition schedule_redraw :: "state \<Rightarrow> state \<times> task option" where
  "schedule_redraw s =
    (if \<not> redraw_scheduled s then (s\<lparr>redraw_scheduled := True\<rparr>, Some Redraw)
     else (s, None))"

text \<open>The body of the coroutine \<open>redraw\<close>, run by the event loop.\<close>

definition redraw :: "state \<Rightarrow> state" where
  "redraw s = (windows_draw s)\<lparr>redraw_scheduled := False\<rparr>"

definition DrawAction_apply :: "'a draw_action_scheme \<Rightarrow> state \<Rightarrow> state" where
  "DrawAction_apply a s =
    (if draw a then
       (if synchronously_draw a then windows_draw s
        else (case schedule_redraw s of
                (s', Some function) \<Rightarrow> ensure_future function s'
              | (s', None) \<Rightarrow> s'))
     else s)"

subsection \<open>\<open>AddImageAction\<close>\<close>

definition INDEX_ALPHA_CHANNEL :: nat where
  "INDEX_ALPHA_CHANNEL = 3"

definition load_image :: "env \<Rightarrow> pyval \<Rightarrow> exn + image" where
  "load_image e p =
    (case image_open e p of
       Inl err \<Rightarrow> Inl err
     | Inr opened_image \<Rightarrow>
         (let im = (if mode opened_image = ''P'' then convert e ''RGBA'' opened_image
                    else opened_image)
          in if str_in (mode im) ''RGBA'' \<and> length (getbands im) = 4
             then (let image_alpha = split_im im ! INDEX_ALPHA_CHANNEL;
                       image_rgb = new ''RGB'' (imsize im) [255, 255, 255]
                   in Inr (paste e image_rgb im (Some image_alpha)))
             else (let image_rgb = new ''RGB'' (imsize im) [255, 255, 255]
                   in Inr (paste e image_rgb im None))))"

text \<open>\<open>view.media[self.identifier] = ui.OverlayWindow.Placement(...)\<close>\<close>

definition store_placement :: "add_image_action \<Rightarrow> image \<Rightarrow> real \<Rightarrow> state \<Rightarrow> state" where
  "store_placement a im last_modified s =
    s\<lparr>view := (view s)\<lparr>media := (media (view s))(dict_key (identifier' a) \<mapsto>
        \<lparr>pl_x = x a, pl_y = y a, pl_width = width a, pl_height = height a,
         pl_max_width = max_width a, pl_max_height = max_height a,
         pl_path = path a, pl_image = im, pl_last_modified = last_modified\<rparr>)\<rparr>\<rparr>"

text \<open>
  The \<open>try\<close> block of \<open>AddImageAction.apply\<close>. A placement and a Pillow image are
  objects without \<open>__bool__\<close> or \<open>__len__\<close>, so \<open>old_placement and old_placement.image\<close>
  is \<open>None\<close> exactly when there is no old placement, and \<open>not image\<close> tests that.
  The dictionary finds the placement under any identifier that is the same key.
  Every call of \<open>load_image\<close> is logged in \<open>opened\<close>.
\<close>

definition add_image_try :: "env \<Rightarrow> add_image_action \<Rightarrow> state \<Rightarrow> state \<times> (exn + unit)" where
  "add_image_try e a s =
    (let old_placement = media (view s) (dict_key (identifier' a));
         image = map_option pl_image old_placement;
         last_modified = map_option pl_last_modified old_placement
     in case getmtime e (path a) of
          Inl err \<Rightarrow> (s, Inl err)
        | Inr current_last_modified \<Rightarrow>
            (if image = None
                \<or> the last_modified < current_last_modified
                \<or> \<not> py_eq (path a) (pl_path (the old_placement))
             then (case load_image e (path a) of
                     Inl err \<Rightarrow> (s\<lparr>opened := opened s @ [path a]\<rparr>, Inl err)
                   | Inr im \<Rightarrow>
                       (store_placement a im current_last_modified
                          (s\<lparr>opened := opened s @ [path a]\<rparr>), Inr ()))
             else (store_placement a (the image) (the last_modified) s, Inr ())))"

text \<open>\<open>AddImageAction.apply\<close>: the \<open>try\<close> block, then \<open>super().apply\<close> in \<open>finally\<close>.\<close>

definition AddImageAction_apply :: "env \<Rightarrow> add_image_action \<Rightarrow> state \<Rightarrow> state \<times> (exn + unit)" where
  "AddImageAction_apply e a s =
    (case add_image_try e a s of (s', r) \<Rightarrow> (DrawAction_apply a s', r))"

subsection \<open>\<open>RemoveImageAction\<close>\<close>

definition remove_image_try :: "remove_image_action \<Rightarrow> state \<Rightarrow> state \<times> (exn + unit)" where
  "remove_image_try a s =
    (if dict_key (identifier' a) \<in> dom (media (view s))
     then (s\<lparr>view := (view s)\<lparr>media := (media (view s))(dict_key (identifier' a) := None)\<rparr>\<rparr>,
           Inr ())
     else (s, Inr ()))"

definition RemoveImageAction_apply :: "remove_image_action \<Rightarrow> state \<Rightarrow> state \<times> (exn + unit)" where
  "RemoveImageAction_apply a s =
    (case remove_image_try a s of (s', r) \<Rightarrow> (DrawAction_apply a s', r))"

subsection \<open>Building an action from decoded data\<close>

text \<open>\<open>and_then r f\<close>: an exception raised by \<open>r\<close> propagates, a value goes on to \<open>f\<close>.\<close>

definition and_then :: "exn + 'a \<Rightarrow> ('a \<Rightarrow> exn + 'b) \<Rightarrow> exn + 'b" where
  "and_then r f = (case r of Inl err \<Rightarrow> Inl err | Inr v \<Rightarrow> f v)"

text \<open>
  The enumeration \<open>Command\<close>, looked up by value: \<open>Command(v)\<close> raises \<open>ValueError\<close> for
  a value that is the name of no action.
\<close>

datatype command = ADD | REMOVE

definition Command :: "pyval \<Rightarrow> exn + command" where
  "Command v =
    (if v = PStr ''add'' then Inr ADD
     else if v = PStr ''remove'' then Inr REMOVE
     else Inl ValueError)"

text \<open>
  \<open>action_class(**data)\<close> calls the initialiser that \<open>attr.s\<close> generates from the
  attribute declarations. Binding the keywords comes first: an unexpected keyword or a
  missing attribute without default is a \<open>TypeError\<close>. Then the attributes are set in
  the order of their declaration, each through its converter.
\<close>

definition keywords_ok :: "string list \<Rightarrow> string list \<Rightarrow> (string \<times> pyval) list \<Rightarrow> bool" where
  "keywords_ok allowed required data =
    ((\<forall>k \<in> set (map fst data). k \<in> set allowed) \<and> (\<forall>k \<in> set required. k \<in> set (map fst data)))"

definition keyword :: "(string \<times> pyval) list \<Rightarrow> string \<Rightarrow> exn + pyval" where
  "keyword data k = (case map_of data k of None \<Rightarrow> Inl TypeError | Some v \<Rightarrow> Inr v)"

definition keyword_or :: "(string \<times> pyval) list \<Rightarrow> string \<Rightarrow> pyval \<Rightarrow> pyval" where
  "keyword_or data k dflt = (case map_of data k of None \<Rightarrow> dflt | Some v \<Rightarrow> v)"

text \<open>No field of the decoded data is an infinite number.\<close>

definition finite_numbers :: "(string \<times> pyval) list \<Rightarrow> bool" where
  "finite_numbers data =
    (\<forall>(k, v) \<in> set data. v \<noteq> PFloat PosInf \<and> v \<noteq> PFloat NegInf)"

definition new_AddImageAction :: "env \<Rightarrow> (string \<times> pyval) list \<Rightarrow> exn + add_image_action" where
  "new_AddImageAction e data =
    (if \<not> keywords_ok
          [''action'', ''draw'', ''synchronously_draw'', ''identifier'', ''x'', ''y'', ''path'',
           ''width'', ''max_width'', ''height'', ''max_height'']
          [''identifier'', ''x'', ''y'', ''path''] data
     then Inl TypeError
     else
       and_then (to_bool e (keyword_or data ''draw'' (PBool True))) (\<lambda>v_draw.
       and_then (to_bool e (keyword_or data ''synchronously_draw'' (PBool False))) (\<lambda>v_sync.
       and_then (keyword data ''identifier'') (\<lambda>v_identifier.
       and_then (and_then (keyword data ''x'') (py_int (str_to_int e))) (\<lambda>v_x.
       and_then (and_then (keyword data ''y'') (py_int (str_to_int e))) (\<lambda>v_y.
       and_then (keyword data ''path'') (\<lambda>v_path.
       and_then (py_int (str_to_int e) (keyword_or data ''width'' (PInt 0))) (\<lambda>v_width.
       and_then (py_int (str_to_int e) (keyword_or data ''max_width'' (PInt 0))) (\<lambda>v_max_width.
       and_then (py_int (str_to_int e) (keyword_or data ''height'' (PInt 0))) (\<lambda>v_height.
       and_then (py_int (str_to_int e) (keyword_or data ''max_height'' (PInt 0))) (\<lambda>v_max_height.
         Inr \<lparr>action = keyword_or data ''action'' (PStr ''add''),
              draw = v_draw, synchronously_draw = v_sync, identifier' = v_identifier,
              x = v_x, y = v_y, path = v_path, width = v_width, max_width = v_max_width,
              height = v_height, max_height = v_max_height\<rparr>)))))))))))"

definition new_RemoveImageAction :: "env \<Rightarrow> (string \<times> pyval) list \<Rightarrow> exn + remove_image_action" where
  "new_RemoveImageAction e data =
    (if \<not> keywords_ok [''action'', ''draw'', ''synchronously_draw'', ''identifier'']
          [''identifier''] data
     then Inl TypeError
     else
       and_then (to_bool e (keyword_or data ''draw'' (PBool True))) (\<lambda>v_draw.
       and_then (to_bool e (keyword_or data ''synchronously_draw'' (PBool False))) (\<lambda>v_sync.
       and_then (keyword data ''identifier'') (\<lambda>v_identifier.
         Inr \<lparr>action = keyword_or data ''action'' (PStr ''remove''),
              draw = v_draw, synchronously_draw = v_sync, identifier' = v_identifier\<rparr>))))"

subsection \<open>The two action classes behind one interface\<close>

datatype act = AddImageAction add_image_action | RemoveImageAction remove_image_action

text \<open>\<open>command.action_class(**data)\<close>\<close>

definition action_class :: "command \<Rightarrow> env \<Rightarrow> (string \<times> pyval) list \<Rightarrow> exn + act" where
  "action_class command e data =
    (case command of
       ADD \<Rightarrow> and_then (new_AddImageAction e data) (\<lambda>a. Inr (AddImageAction a))
     | REMOVE \<Rightarrow> and_then (new_RemoveImageAction e data) (\<lambda>a. Inr (RemoveImageAction a)))"

text \<open>The method \<open>apply\<close> of an action, by its class.\<close>

fun action_apply :: "env \<Rightarrow> act \<Rightarrow> state \<Rightarrow> state \<times> (exn + unit)" where
  "action_apply e (AddImageAction a) s = AddImageAction_apply e a s"
| "action_apply e (RemoveImageAction a) s = RemoveImageAction_apply a s"

text \<open>The attributes \<open>draw\<close> and \<open>synchronously_draw\<close> of an action.\<close>

fun draw_policy :: "act \<Rightarrow> bool \<times> bool" where
  "draw_policy (AddImageAction a) = (draw a, synchronously_draw a)"
| "draw_policy (RemoveImageAction a) = (draw a, synchronously_draw a)"

text \<open>
  Actions applied one after the other within one iteration of the event loop: no task
  runs in between. Each comes with the file system it finds. An exception raised by one
  of them is the caller's to handle and does not stop the next.
\<close>

definition apply_all :: "(env \<times> act) list \<Rightarrow> state \<Rightarrow> state" where
  "apply_all acts s = fold (\<lambda>(e, a) s'. fst (action_apply e a s')) acts s"

section \<open>The command consumer (\<open>main_commands\<close>)\<close>

text \<open>
  Modelled from the spec: \<open>result.ErrorResult(error).print(parser_object)\<close> (the module
  \<open>result\<close> is not among the sources) emits one error report on the output channel.
\<close>

definition print_error :: "exn \<Rightarrow> state \<Rightarrow> state" where
  "print_error err s = s\<lparr>reports := reports s @ [err]\<rparr>"

text \<open>
  The inner \<open>try\<close> block: decode the line without its last character, look the action
  up, build it and apply it.
\<close>

definition command_try :: "env \<Rightarrow> string \<Rightarrow> state \<Rightarrow> state \<times> (exn + unit)" where
  "command_try e line s =
    (case parse e (butlast line) of
       Inl err \<Rightarrow> (s, Inl err)
     | Inr data \<Rightarrow>
        (case map_of data ''action'' of
           None \<Rightarrow> (s, Inl KeyError)
         | Some v \<Rightarrow>
            (case Command v of
               Inl err \<Rightarrow> (s, Inl err)
             | Inr command \<Rightarrow>
                (case action_class command e data of
                   Inl err \<Rightarrow> (s, Inl err)
                 | Inr a \<Rightarrow> action_apply e a s))))"

text \<open>The classes named by \<open>except (OSError, KeyError, ValueError, TypeError)\<close>.\<close>

definition handled :: "exn \<Rightarrow> bool" where
  "handled err = (err \<in> {OSError, KeyError, ValueError, TypeError})"

text \<open>
  The \<open>async for\<close> loop over the lines that \<open>files.LineReader\<close> delivers from standard
  input, each with the newline that ends it; the list ends where the stream is closed.
  The result says whether the loop ended normally (\<open>None\<close>) or by an exception that
  left the coroutine.
\<close>

fun command_loop :: "env \<Rightarrow> string list \<Rightarrow> state \<Rightarrow> state \<times> exn option" where
  "command_loop e [] s = (s, None)"
| "command_loop e (line # rest) s =
    (if line = [] then (s, None)
     else (case command_try e line s of
             (s', Inr u) \<Rightarrow> command_loop e rest s'
           | (s', Inl err) \<Rightarrow>
               (if handled err then command_loop e rest (print_error err s')
                else (s', Some err))))"

text \<open>\<open>main_commands\<close>: the loop, then the shutdown routine is scheduled in \<open>finally\<close>.\<close>

definition main_commands :: "env \<Rightarrow> string list \<Rightarrow> state \<Rightarrow> state \<times> exn option" where
  "main_commands e lines s =
    (case command_loop e lines s of (s', r) \<Rightarrow> (ensure_future Shutdown s', r))"

section \<open>The event loop\<close>

text \<open>
  \<open>shutdown\<close>: every other task is cancelled, so none that has not run yet runs, and the
  loop is stopped.
\<close>

definition shutdown :: "state \<Rightarrow> state" where
  "shutdown s = s\<lparr>pending := [], stopped := True\<rparr>"

fun run_task :: "task \<Rightarrow> state \<Rightarrow> state" where
  "run_task Redraw s = redraw s"
| "run_task Shutdown s = shutdown s"

text \<open>The loop runs the waiting tasks in the order in which they were scheduled.\<close>

function drain :: "state \<Rightarrow> state" where
  "drain s =
    (case pending s of
       [] \<Rightarrow> s
     | t # ts \<Rightarrow> drain (run_task t (s\<lparr>pending := ts\<rparr>)))"
  by pat_completeness auto
termination
proof (relation "measure (\<lambda>s. length (pending s))")
  show "wf (measure (\<lambda>s. length (pending s)))"
    by simp
next
  fix s :: state and t ts
  assume "pending s = t # ts"
  then show "(run_task t (s\<lparr>pending := ts\<rparr>), s) \<in> measure (\<lambda>s. length (pending s))"
    by (cases t) (simp_all add: redraw_def windows_draw_def shutdown_def)
qed

declare drain.simps [simp del]

section \<open>Re-enumeration of the parent windows (\<open>query_windows\<close>)\<close>

text \<open>
  Modelled from the spec: \<open>window_factory.create\<close> of \<open>ui.OverlayWindow.Factory\<close> makes
  one overlay window per parent window info.
\<close>

definition create :: "window_info list \<Rightarrow> window list" where
  "create infos = map (\<lambda>info. \<lparr>parent_window = info\<rparr>) infos"

text \<open>
  Modelled from the spec: \<open>windows += ...\<close> and \<open>windows -= ...\<close> of \<open>batch.BatchList\<close>
  (the module is not among the sources) add the given windows at the end of the window
  list and take the given windows out of it.
\<close>

definition windows_iadd :: "window list \<Rightarrow> state \<Rightarrow> state" where
  "windows_iadd created s = s\<lparr>windows := windows s @ created\<rparr>"

definition windows_isub :: "window list \<Rightarrow> state \<Rightarrow> state" where
  "windows_isub gone s = s\<lparr>windows := filter (\<lambda>w. w \<notin> set gone) (windows s)\<rparr>"

text \<open>
  \<open>query_windows\<close>, given what \<open>xutil.get_parent_window_infos()\<close> and
  \<open>tmux_util.get_offset()\<close> return. A dictionary built by a comprehension keeps the
  last value of a key; the key views are sets; a comprehension over a set visits it in
  some order, here the ascending one.
\<close>

definition parent_window_ids :: "window_info list \<Rightarrow> nat set" where
  "parent_window_ids parent_window_infos = set (map window_id parent_window_infos)"

definition current_window_ids :: "window list \<Rightarrow> nat set" where
  "current_window_ids ws = set (map (\<lambda>w. window_id (parent_window w)) ws)"

definition query_windows :: "window_info list \<Rightarrow> int \<times> int \<Rightarrow> state \<Rightarrow> state" where
  "query_windows parent_window_infos new_offset s =
    (let s1 = s\<lparr>view := (view s)\<lparr>offset := new_offset\<rparr>\<rparr>;
         map_parent_window_id_info =
           map_of (rev (map (\<lambda>info. (window_id info, info)) parent_window_infos));
         map_current_windows =
           map_of (rev (map (\<lambda>w. (window_id (parent_window w), w)) (windows s1)));
         diff_window_ids =
           (parent_window_ids parent_window_infos - current_window_ids (windows s1))
           \<union> (current_window_ids (windows s1) - parent_window_ids parent_window_infos);
         added_window_ids = diff_window_ids \<inter> parent_window_ids parent_window_infos;
         removed_window_ids = diff_window_ids \<inter> current_window_ids (windows s1);
         draw_needed = (added_window_ids \<noteq> {} \<or> removed_window_ids \<noteq> {});
         s2 = (if added_window_ids \<noteq> {}
               then windows_iadd
                      (create (map (\<lambda>wid. the (map_parent_window_id_info wid))
                                   (sorted_list_of_set added_window_ids))) s1
               else s1);
         s3 = (if removed_window_ids \<noteq> {}
               then windows_isub
                      (map (\<lambda>wid. the (map_current_windows wid))
                           (sorted_list_of_set removed_window_ids)) s2
               else s2)
     in if draw_needed then windows_draw s3 else s3)"

section \<open>The tmux hooks (\<open>setup_tmux_hooks\<close>)\<close>

text \<open>
  The part of the world the hook routines work on: the text of the lock file of the
  session and the command that tmux has registered for each event. Under the lock of
  \<open>files.lock\<close> each routine is one step on it.
\<close>

record tmux =
  pid_file :: string
  hooks :: "string \<rightharpoonup> string"

definition events :: "string list" where
  "events = [''client-session-changed'', ''session-window-changed'', ''pane-mode-changed'']"

definition command_template :: string where
  "command_template = ''kill -USR1 ''"

text \<open>
  \<open>str.split()\<close> without argument: the runs of characters that are not whitespace. A
  character is a code point below 256; those that Python counts as whitespace are 9 to
  13, 28 to 32, 133 and 160.
\<close>

definition is_space :: "char \<Rightarrow> bool" where
  "is_space c = (let n = (of_char c :: nat) in (9 \<le> n \<and> n \<le> 13) \<or> (28 \<le> n \<and> n \<le> 32) \<or> n = 133 \<or> n = 160)"

fun split_from :: "string \<Rightarrow> string \<Rightarrow> string list" where
  "split_from cur [] = (if cur = [] then [] else [cur])"
| "split_from cur (c # cs) =
    (if is_space c then (if cur = [] then split_from [] cs else cur # split_from [] cs)
     else split_from (cur @ [c]) cs)"

definition str_split :: "string \<Rightarrow> string list" where
  "str_split s = split_from [] s"

text \<open>\<open>sep.join(items)\<close>\<close>

fun join :: "string \<Rightarrow> string list \<Rightarrow> string" where
  "join sep [] = []"
| "join sep [a] = a"
| "join sep (a # b # rest) = a @ sep @ join sep (b # rest)"

text \<open>
  Modelled from the spec: \<open>tmux_util.register_hook\<close> and \<open>tmux_util.unregister_hook\<close>
  (the module is not among the sources) register a shell command for an event kind and
  remove the registration.
\<close>

definition register_hook :: "string \<Rightarrow> string \<Rightarrow> tmux \<Rightarrow> tmux" where
  "register_hook event command t = t\<lparr>hooks := (hooks t)(event \<mapsto> command)\<rparr>"

definition unregister_hook :: "string \<Rightarrow> tmux \<Rightarrow> tmux" where
  "unregister_hook event t = t\<lparr>hooks := (hooks t)(event := None)\<rparr>"

text \<open>
  \<open>update_hooks\<close>: the file is rewritten with the pids, and for every event the command
  is registered, or unregistered when the text of the pids is empty.
\<close>

definition update_hooks :: "string list \<Rightarrow> tmux \<Rightarrow> tmux" where
  "update_hooks pid_list t =
    (let pids = join '' '' pid_list;
         command = command_template @ pids
     in fold (\<lambda>event t'. if pids \<noteq> [] then register_hook event command t'
                          else unregister_hook event t')
             events (t\<lparr>pid_file := pids\<rparr>))"

text \<open>
  The set of pids read from the file is a list without duplicates: \<open>join\<close> visits the
  set in some order.
\<close>

definition remove_hooks :: "string \<Rightarrow> tmux \<Rightarrow> tmux" where
  "remove_hooks own_pid t =
    (let pids = remdups (str_split (pid_file t));
         pids' = removeAll own_pid pids
     in update_hooks pids' t)"

definition setup_tmux_hooks :: "string \<Rightarrow> tmux \<Rightarrow> tmux" where
  "setup_tmux_hooks own_pid t =
    (let pids = remdups (str_split (pid_file t));
         pids' = (if own_pid \<in> set pids then pids else pids @ [own_pid])
     in update_hooks pids' t)"

section \<open>Example inputs\<close>

text \<open>
  A file system with one image file, \<open>/tmp/a.png\<close>, last modified at time 5; an \<open>add\<close>
  action for it under the identifier \<open>a\<close>; a placement under that identifier as an
  earlier \<open>add\<close> at time \<open>t\<close> left it; and a state with no window and nothing scheduled.
\<close>

definition ex_image :: image where
  "ex_image = \<lparr>mode = ''RGB'', imsize = (1, 1), pixels = [[10, 20, 30]]\<rparr>"

definition ex_env :: env where
  "ex_env =
    \<lparr>getmtime = (\<lambda>p. if p = PStr ''/tmp/a.png'' then Inr 5 else Inl OSError),
     image_open = (\<lambda>p. if p = PStr ''/tmp/a.png'' then Inr ex_image else Inl OSError),
     convert_px = (\<lambda>im m p. p),
     blend = (\<lambda>m cur src. src),
     parse = (\<lambda>l. Inl ValueError),
     to_bool = (\<lambda>v. Inr (v = PBool True)),
     str_to_int = (\<lambda>t. None)\<rparr>"

definition ex_add :: add_image_action where
  "ex_add =
    \<lparr>action = PStr ''add'', draw = True, synchronously_draw = False, identifier' = PStr ''a'',
     x = 1, y = 2, path = PStr ''/tmp/a.png'', width = 0, max_width = 0, height = 0,
     max_height = 0\<rparr>"

definition ex_placement :: "real \<Rightarrow> placement" where
  "ex_placement t =
    \<lparr>pl_x = 0, pl_y = 0, pl_width = 0, pl_height = 0, pl_max_width = 0, pl_max_height = 0,
     pl_path = PStr ''/tmp/a.png'', pl_image = ex_image, pl_last_modified = t\<rparr>"

definition ex_state :: "(pykey \<rightharpoonup> placement) \<Rightarrow> state" where
  "ex_state m =
    \<lparr>view = \<lparr>media = m, offset = (0, 0)\<rparr>, windows = [], redraw_scheduled = False,
     pending = [], stopped = False, draws = [], opened = [], reports = []\<rparr>"

definition ex_remove :: remove_image_action where
  "ex_remove =
    \<lparr>action = PStr ''remove'', draw = True, synchronously_draw = True,
     identifier' = PStr ''a''\<rparr>"

definition ex_remove_async :: remove_image_action where
  "ex_remove_async =
    \<lparr>action = PStr ''remove'', draw = True, synchronously_draw = False,
     identifier' = PStr ''b''\<rparr>"

text \<open>
  Two command lines as the JSON decoder reads them, and a decoder that knows these two
  and rejects every other line. In the first, the number \<open>1e999\<close> is beyond the range
  of a float, which makes it the float infinity.
\<close>

definition cx_line_add :: string where
  \<open>cx_line_add = ''{"action":"add","identifier":"a","x":1e999,"y":0,"path":"/tmp/a.png"}'' @ [CHR 0x0A]\<close>

definition cx_line_remove :: string where
  \<open>cx_line_remove = ''{"action":"remove","identifier":"a"}'' @ [CHR 0x0A]\<close>

definition cx_parse :: "string \<Rightarrow> exn + (string \<times> pyval) list" where
  \<open>cx_parse l =
    (if l = ''{"action":"add","identifier":"a","x":1e999,"y":0,"path":"/tmp/a.png"}''
     then Inr [(''action'', PStr ''add''), (''identifier'', PStr ''a''), (''x'', PFloat PosInf),
               (''y'', PInt 0), (''path'', PStr ''/tmp/a.png'')]
     else if l = ''{"action":"remove","identifier":"a"}''
     then Inr [(''action'', PStr ''remove''), (''identifier'', PStr ''a'')]
     else Inl ValueError)\<close>

definition cx_env :: env where
  "cx_env = ex_env\<lparr>parse := cx_parse\<rparr>"

text \<open>
  Two image files: \<open>/tmp/la.png\<close>, one fully transparent black pixel in greyscale with
  alpha, and \<open>/tmp/p.png\<close>, two pixels that index a palette whose first entry is
  fully transparent and whose second is opaque.
\<close>

definition ex_la_image :: image where
  "ex_la_image = \<lparr>mode = ''LA'', imsize = (1, 1), pixels = [[0, 0]]\<rparr>"

definition ex_p_image :: image where
  "ex_p_image = \<lparr>mode = ''P'', imsize = (2, 1), pixels = [[0], [1]]\<rparr>"

definition ex_img_env :: env where
  "ex_img_env = ex_env
    \<lparr>image_open := (\<lambda>p. if p = PStr ''/tmp/la.png'' then Inr ex_la_image
                        else if p = PStr ''/tmp/p.png'' then Inr ex_p_image
                        else Inl OSError),
     convert_px := (\<lambda>im m p. if mode im = ''P'' \<and> m = ''RGBA''
                               then [[10, 20, 30, 0], [40, 50, 60, 255]] ! (p ! 0) else p)\<rparr>"

text \<open>Two tracked windows, over the parent windows 1 and 2.\<close>

definition ex_info :: "nat \<Rightarrow> window_info" where
  "ex_info n = \<lparr>window_id = n, geometry = (0, 0, 80, 24)\<rparr>"

definition ex_windows_state :: state where
  "ex_windows_state =
    (ex_state Map.empty)\<lparr>windows := [\<lparr>parent_window = ex_info 1\<rparr>, \<lparr>parent_window = ex_info 2\<rparr>]\<rparr>"

text \<open>
  A lock file holding the given pids, with the command that signals them registered
  for every event.
\<close>

definition ex_tmux :: "string \<Rightarrow> tmux" where
  "ex_tmux pids =
    \<lparr>pid_file = pids,
     hooks = (\<lambda>event. if event \<in> set events then Some (command_template @ pids) else None)\<rparr>"

section \<open>The draw policy leaves the view and the logs of files and reports alone\<close>

lemma view_DrawAction_apply: "view (DrawAction_apply a s) = view s"
  by (simp add: DrawAction_apply_def windows_draw_def schedule_redraw_def ensure_future_def)

lemma reports_DrawAction_apply: "reports (DrawAction_apply a s) = reports s"
  by (simp add: DrawAction_apply_def windows_draw_def schedule_redraw_def ensure_future_def)

lemma opened_DrawAction_apply: "opened (DrawAction_apply a s) = opened s"
  by (simp add: DrawAction_apply_def windows_draw_def schedule_redraw_def ensure_future_def)

section \<open>The placement cache\<close>

text \<open>
  Numbers of equal value are one key whatever their type, a string is the key of
  strings only, strings are equal when their text is, and a NaN equals nothing.
\<close>

lemma key_of_numbers:
  "dict_key (PInt 1) = dict_key (PFloat (Finite 1))
   \<and> dict_key (PInt 1) = dict_key (PBool True)
   \<and> dict_key (PStr ''1'') \<noteq> dict_key (PInt 1)
   \<and> py_eq (PStr t) (PStr u) = (t = u)
   \<and> \<not> py_eq (PFloat (NaN n)) (PFloat (NaN n))"
  by (simp add: py_eq_def)

text \<open>
  C2. Let the modification time of the action's path be readable. If the view holds a
  placement under the identifier (under the key the identifier is) with an equal path
  and the same modification time, \<open>Image.open\<close> is not called, the action succeeds and
  the new placement carries the cached image. If there is no placement under the
  identifier, or its path is not equal, or its modification time is strictly less than
  the current one, \<open>load_image\<close> is called once on the path, and when it returns an
  image the placement stored under the identifier carries that image and the current
  modification time. Either way the other entries of the view stay as they were.
\<close>

theorem add_image_cache:
  assumes "getmtime e (path a) = Inr t"
  shows "(\<forall>old. media (view s) (dict_key (identifier' a)) = Some old \<and> py_eq (path a) (pl_path old)
              \<and> pl_last_modified old = t \<longrightarrow>
            opened (fst (AddImageAction_apply e a s)) = opened s
            \<and> snd (AddImageAction_apply e a s) = Inr ()
            \<and> media (view (fst (AddImageAction_apply e a s))) =
                (media (view s))(dict_key (identifier' a) \<mapsto>
                  \<lparr>pl_x = x a, pl_y = y a, pl_width = width a, pl_height = height a,
                   pl_max_width = max_width a, pl_max_height = max_height a,
                   pl_path = path a, pl_image = pl_image old, pl_last_modified = t\<rparr>))
       \<and> ((media (view s) (dict_key (identifier' a)) = None
            \<or> (\<exists>old. media (view s) (dict_key (identifier' a)) = Some old
                  \<and> (\<not> py_eq (path a) (pl_path old) \<or> pl_last_modified old < t))) \<longrightarrow>
            opened (fst (AddImageAction_apply e a s)) = opened s @ [path a]
            \<and> (\<forall>im. load_image e (path a) = Inr im \<longrightarrow>
                  snd (AddImageAction_apply e a s) = Inr ()
                  \<and> media (view (fst (AddImageAction_apply e a s))) =
                      (media (view s))(dict_key (identifier' a) \<mapsto>
                        \<lparr>pl_x = x a, pl_y = y a, pl_width = width a, pl_height = height a,
                         pl_max_width = max_width a, pl_max_height = max_height a,
                         pl_path = path a, pl_image = im, pl_last_modified = t\<rparr>)))"
  using assms
  by (auto simp: AddImageAction_apply_def add_image_try_def Let_def view_DrawAction_apply
       opened_DrawAction_apply store_placement_def
       split: sum.splits)

theorem add_image_cache_witness:
  "getmtime ex_env (path ex_add) = Inr 5
   \<and> media (view (ex_state [KStr ''a'' \<mapsto> ex_placement 5])) (dict_key (identifier' ex_add))
       = Some (ex_placement 5)
   \<and> py_eq (path ex_add) (pl_path (ex_placement 5))
   \<and> pl_last_modified (ex_placement 5) = 5
   \<and> opened (fst (AddImageAction_apply ex_env ex_add (ex_state [KStr ''a'' \<mapsto> ex_placement 5])))
       = opened (ex_state [KStr ''a'' \<mapsto> ex_placement 5])
   \<and> media (view (ex_state Map.empty)) (dict_key (identifier' ex_add)) = None
   \<and> opened (fst (AddImageAction_apply ex_env ex_add (ex_state Map.empty)))
       = opened (ex_state Map.empty) @ [path ex_add]"
proof -
  have h: "getmtime ex_env (path ex_add) = Inr 5"
    by (simp add: ex_env_def ex_add_def)
  have hit: "media (view (ex_state [KStr ''a'' \<mapsto> ex_placement 5])) (dict_key (identifier' ex_add))
       = Some (ex_placement 5)
     \<and> py_eq (path ex_add) (pl_path (ex_placement 5)) \<and> pl_last_modified (ex_placement 5) = 5"
    by (simp add: ex_state_def ex_add_def ex_placement_def py_eq_def)
  have miss: "media (view (ex_state Map.empty)) (dict_key (identifier' ex_add)) = None"
    by (simp add: ex_state_def)
  from add_image_cache [OF h, of "ex_state [KStr ''a'' \<mapsto> ex_placement 5]"] hit
  have "opened (fst (AddImageAction_apply ex_env ex_add (ex_state [KStr ''a'' \<mapsto> ex_placement 5])))
       = opened (ex_state [KStr ''a'' \<mapsto> ex_placement 5])"
    by blast
  moreover from add_image_cache [OF h, of "ex_state Map.empty"] miss
  have "opened (fst (AddImageAction_apply ex_env ex_add (ex_state Map.empty)))
       = opened (ex_state Map.empty) @ [path ex_add]"
    by blast
  ultimately show ?thesis
    using h hit miss by blast
qed

text \<open>
  An identifier that is a number finds the placement stored under an equal number of
  another type: \<open>1.0\<close> over a placement under \<open>1\<close> with the same path and time opens
  no file and leaves one entry.
\<close>

lemma add_image_number_key:
  "opened (fst (AddImageAction_apply ex_env (ex_add\<lparr>identifier' := PFloat (Finite 1)\<rparr>)
                  (ex_state [dict_key (PInt 1) \<mapsto> ex_placement 5]))) = []
   \<and> dom (media (view (fst (AddImageAction_apply ex_env (ex_add\<lparr>identifier' := PFloat (Finite 1)\<rparr>)
                  (ex_state [dict_key (PInt 1) \<mapsto> ex_placement 5]))))) = {dict_key (PInt 1)}"
  by (simp add: ex_env_def ex_add_def ex_state_def ex_placement_def py_eq_def
      AddImageAction_apply_def add_image_try_def store_placement_def opened_DrawAction_apply
      view_DrawAction_apply)

text \<open>
  C4, as the spec states it: when the modification time of the source has moved
  backward, the image is reloaded. The code does not do so. The placement was recorded
  at time 10, the file now reports time 5, the path is the same: \<open>Image.open\<close> is not
  called.
\<close>

theorem add_image_older_mtime_counterexample:
  "getmtime ex_env (path ex_add) = Inr 5
   \<and> map_option pl_path
        (media (view (ex_state [KStr ''a'' \<mapsto> ex_placement 10])) (dict_key (identifier' ex_add)))
       = Some (path ex_add)
   \<and> map_option pl_last_modified
        (media (view (ex_state [KStr ''a'' \<mapsto> ex_placement 10])) (dict_key (identifier' ex_add)))
       = Some 10
   \<and> opened (fst (AddImageAction_apply ex_env ex_add
                     (ex_state [KStr ''a'' \<mapsto> ex_placement 10]))) = []"
  by (simp add: ex_env_def ex_add_def ex_state_def ex_placement_def py_eq_def AddImageAction_apply_def
      add_image_try_def store_placement_def opened_DrawAction_apply)

text \<open>
  C4, amended. For an \<open>add\<close> whose identifier holds a placement with the same path and
  a recorded modification time strictly greater than the current one, the image is not
  reloaded: \<open>Image.open\<close> is not called, and the new placement keeps the cached image
  and the recorded modification time.
\<close>

theorem add_image_older_mtime_keeps_cache:
  assumes "getmtime e (path a) = Inr t"
    and "media (view s) (dict_key (identifier' a)) = Some old"
    and "py_eq (path a) (pl_path old)"
    and "t < pl_last_modified old"
  shows "opened (fst (AddImageAction_apply e a s)) = opened s
       \<and> snd (AddImageAction_apply e a s) = Inr ()
       \<and> media (view (fst (AddImageAction_apply e a s))) =
           (media (view s))(dict_key (identifier' a) \<mapsto>
             \<lparr>pl_x = x a, pl_y = y a, pl_width = width a, pl_height = height a,
              pl_max_width = max_width a, pl_max_height = max_height a,
              pl_path = path a, pl_image = pl_image old,
              pl_last_modified = pl_last_modified old\<rparr>)"
  using assms
  by (auto simp: AddImageAction_apply_def add_image_try_def Let_def view_DrawAction_apply
       opened_DrawAction_apply store_placement_def
       split: sum.splits)

theorem add_image_older_mtime_keeps_cache_witness:
  "getmtime ex_env (path ex_add) = Inr 5
   \<and> media (view (ex_state [KStr ''a'' \<mapsto> ex_placement 7])) (dict_key (identifier' ex_add))
       = Some (ex_placement 7)
   \<and> py_eq (path ex_add) (pl_path (ex_placement 7))
   \<and> 5 < pl_last_modified (ex_placement 7)
   \<and> map_option pl_last_modified
       (media (view (fst (AddImageAction_apply ex_env ex_add
                            (ex_state [KStr ''a'' \<mapsto> ex_placement 7])))) (KStr ''a''))
       = Some 7"
proof -
  have h1: "getmtime ex_env (path ex_add) = Inr 5"
    by (simp add: ex_env_def ex_add_def)
  have h2: "media (view (ex_state [KStr ''a'' \<mapsto> ex_placement 7])) (dict_key (identifier' ex_add))
       = Some (ex_placement 7)"
    by (simp add: ex_state_def ex_add_def)
  have h3: "py_eq (path ex_add) (pl_path (ex_placement 7))"
    by (simp add: ex_add_def ex_placement_def py_eq_def)
  have h4: "5 < pl_last_modified (ex_placement 7)"
    by (simp add: ex_placement_def py_eq_def)
  show ?thesis
    using h1 h2 h3 h4 add_image_older_mtime_keeps_cache [OF h1 h2 h3 h4]
    by (simp add: ex_add_def ex_placement_def py_eq_def)
qed

section \<open>Failures of \<open>AddImageAction.apply\<close>\<close>

text \<open>
  C10. If \<open>AddImageAction.apply\<close> raises, the placements of the view are those from
  before the call, and the state it leaves is the one the draw policy
  (\<open>DrawAction.apply\<close>, run in \<open>finally\<close>) makes of the state before the call, apart
  from the log of the files handed to \<open>Image.open\<close>.
\<close>

theorem add_image_failure_atomic:
  assumes "AddImageAction_apply e a s = (s', Inl err)"
  shows "media (view s') = media (view s) \<and> s' = DrawAction_apply a (s\<lparr>opened := opened s'\<rparr>)"
  using assms
  by (auto simp: AddImageAction_apply_def add_image_try_def Let_def view_DrawAction_apply
       opened_DrawAction_apply
       split: sum.splits if_splits prod.splits)

theorem add_image_failure_atomic_witness:
  "AddImageAction_apply ex_env (ex_add\<lparr>path := PStr ''/tmp/missing.png''\<rparr>)
       (ex_state [KStr ''a'' \<mapsto> ex_placement 5])
     = ((ex_state [KStr ''a'' \<mapsto> ex_placement 5])\<lparr>redraw_scheduled := True, pending := [Redraw]\<rparr>,
        Inl OSError)
   \<and> media (view ((ex_state [KStr ''a'' \<mapsto> ex_placement 5])
                     \<lparr>redraw_scheduled := True, pending := [Redraw]\<rparr>))
       = media (view (ex_state [KStr ''a'' \<mapsto> ex_placement 5]))"
proof -
  have h: "AddImageAction_apply ex_env (ex_add\<lparr>path := PStr ''/tmp/missing.png''\<rparr>)
       (ex_state [KStr ''a'' \<mapsto> ex_placement 5])
     = ((ex_state [KStr ''a'' \<mapsto> ex_placement 5])\<lparr>redraw_scheduled := True, pending := [Redraw]\<rparr>,
        Inl OSError)"
    by (simp add: AddImageAction_apply_def add_image_try_def ex_env_def ex_add_def ex_state_def
        DrawAction_apply_def schedule_redraw_def ensure_future_def)
  from add_image_failure_atomic [OF h]
  have c: "media (view ((ex_state [KStr ''a'' \<mapsto> ex_placement 5])
                     \<lparr>redraw_scheduled := True, pending := [Redraw]\<rparr>))
       = media (view (ex_state [KStr ''a'' \<mapsto> ex_placement 5]))"
    by (rule conjunct1)
  show ?thesis
    using h c by (rule conjI)
qed

section \<open>\<open>RemoveImageAction.apply\<close>\<close>

text \<open>
  C7. \<open>RemoveImageAction.apply\<close> never raises and prints no report. For an identifier
  without placement (none under the key the identifier is), what it does is what the
  draw policy alone does, and the view is unchanged. For an identifier with a
  placement, the entry is removed and the others stay.
\<close>

theorem remove_image_absent_noop:
  "snd (RemoveImageAction_apply a s) = Inr ()
    \<and> reports (fst (RemoveImageAction_apply a s)) = reports s
    \<and> (media (view s) (dict_key (identifier' a)) = None \<longrightarrow>
         fst (RemoveImageAction_apply a s) = DrawAction_apply a s
         \<and> view (fst (RemoveImageAction_apply a s)) = view s)
    \<and> (media (view s) (dict_key (identifier' a)) \<noteq> None \<longrightarrow>
         media (view (fst (RemoveImageAction_apply a s))) = (media (view s))(dict_key (identifier' a) := None))"
  by (auto simp: RemoveImageAction_apply_def remove_image_try_def view_DrawAction_apply
      reports_DrawAction_apply domIff)

theorem remove_image_absent_noop_witness:
  "media (view (ex_state Map.empty)) (dict_key (identifier' ex_remove)) = None
   \<and> fst (RemoveImageAction_apply ex_remove (ex_state Map.empty))
       = (ex_state Map.empty)\<lparr>draws := [([], view (ex_state Map.empty))]\<rparr>
   \<and> media (view (ex_state [KStr ''a'' \<mapsto> ex_placement 5])) (dict_key (identifier' ex_remove)) \<noteq> None
   \<and> media (view (fst (RemoveImageAction_apply ex_remove
                         (ex_state [KStr ''a'' \<mapsto> ex_placement 5])))) = Map.empty"
proof -
  have h1: "media (view (ex_state Map.empty)) (dict_key (identifier' ex_remove)) = None"
    by (simp add: ex_state_def)
  have h2: "media (view (ex_state [KStr ''a'' \<mapsto> ex_placement 5])) (dict_key (identifier' ex_remove)) \<noteq> None"
    by (simp add: ex_state_def ex_remove_def)
  have d: "DrawAction_apply ex_remove (ex_state Map.empty)
      = (ex_state Map.empty)\<lparr>draws := [([], view (ex_state Map.empty))]\<rparr>"
    by (simp add: DrawAction_apply_def ex_remove_def windows_draw_def ex_state_def)
  from remove_image_absent_noop [of ex_remove "ex_state Map.empty"] h1 d
  have "fst (RemoveImageAction_apply ex_remove (ex_state Map.empty))
       = (ex_state Map.empty)\<lparr>draws := [([], view (ex_state Map.empty))]\<rparr>"
    by simp
  moreover from remove_image_absent_noop [of ex_remove "ex_state [KStr ''a'' \<mapsto> ex_placement 5]"] h2
  have "media (view (fst (RemoveImageAction_apply ex_remove
                         (ex_state [KStr ''a'' \<mapsto> ex_placement 5])))) = Map.empty"
    by (simp add: ex_state_def ex_remove_def)
  ultimately show ?thesis
    using h1 h2 by blast
qed

text \<open>
  \<open>True\<close> as identifier removes the placement stored under \<open>1\<close>: they are one key.
\<close>

lemma remove_image_number_key:
  "media (view (fst (RemoveImageAction_apply (ex_remove\<lparr>identifier' := PBool True\<rparr>)
                       (ex_state [dict_key (PInt 1) \<mapsto> ex_placement 5])))) = Map.empty"
  by (simp add: ex_remove_def ex_state_def RemoveImageAction_apply_def remove_image_try_def
      view_DrawAction_apply)

section \<open>The redraw scheduler\<close>

lemma drain_Nil: "pending s = [] \<Longrightarrow> drain s = s"
  by (subst drain.simps) simp

lemma drain_Cons: "pending s = t # ts \<Longrightarrow> drain s = drain (run_task t (s\<lparr>pending := ts\<rparr>))"
  by (subst drain.simps) simp

lemma add_image_try_sched:
  "pending (fst (add_image_try e a s)) = pending s
   \<and> redraw_scheduled (fst (add_image_try e a s)) = redraw_scheduled s
   \<and> draws (fst (add_image_try e a s)) = draws s
   \<and> windows (fst (add_image_try e a s)) = windows s"
  by (simp add: add_image_try_def Let_def store_placement_def split: sum.splits)

lemma remove_image_try_sched:
  "pending (fst (remove_image_try a s)) = pending s
   \<and> redraw_scheduled (fst (remove_image_try a s)) = redraw_scheduled s
   \<and> draws (fst (remove_image_try a s)) = draws s
   \<and> windows (fst (remove_image_try a s)) = windows s"
  by (simp add: remove_image_try_def)

lemma DrawAction_apply_async:
  "draw a \<Longrightarrow> \<not> synchronously_draw a \<Longrightarrow>
   pending (DrawAction_apply a s) = (if redraw_scheduled s then pending s else pending s @ [Redraw])
   \<and> redraw_scheduled (DrawAction_apply a s)
   \<and> draws (DrawAction_apply a s) = draws s
   \<and> windows (DrawAction_apply a s) = windows s"
  by (simp add: DrawAction_apply_def schedule_redraw_def ensure_future_def)

lemma action_apply_async:
  assumes "draw_policy a = (True, False)"
  shows "pending (fst (action_apply e a s))
           = (if redraw_scheduled s then pending s else pending s @ [Redraw])
   \<and> redraw_scheduled (fst (action_apply e a s))
   \<and> draws (fst (action_apply e a s)) = draws s
   \<and> windows (fst (action_apply e a s)) = windows s"
proof (cases a)
  case (AddImageAction b)
  with assms have "draw b" "\<not> synchronously_draw b" by simp_all
  from DrawAction_apply_async [OF this, of "fst (add_image_try e b s)"] add_image_try_sched [of e b s]
  show ?thesis
    by (simp add: AddImageAction AddImageAction_apply_def split_beta)
next
  case (RemoveImageAction b)
  with assms have "draw b" "\<not> synchronously_draw b" by simp_all
  from DrawAction_apply_async [OF this, of "fst (remove_image_try b s)"] remove_image_try_sched [of b s]
  show ?thesis
    by (simp add: RemoveImageAction RemoveImageAction_apply_def split_beta)
qed

lemma apply_all_scheduled:
  assumes "\<forall>(e, a) \<in> set acts. draw_policy a = (True, False)"
    and "redraw_scheduled s"
  shows "pending (apply_all acts s) = pending s \<and> redraw_scheduled (apply_all acts s)
       \<and> draws (apply_all acts s) = draws s \<and> windows (apply_all acts s) = windows s"
  using assms
proof (induction acts arbitrary: s)
  case Nil
  then show ?case by (simp add: apply_all_def)
next
  case (Cons p acts)
  obtain e a where p: "p = (e, a)" by (cases p)
  from Cons.prems p have a: "draw_policy a = (True, False)" by simp
  let ?s = "fst (action_apply e a s)"
  from action_apply_async [OF a, of e s] Cons.prems(2)
  have step: "pending ?s = pending s" "redraw_scheduled ?s" "draws ?s = draws s"
    "windows ?s = windows s"
    by simp_all
  from Cons.prems(1) have "\<forall>(e, a) \<in> set acts. draw_policy a = (True, False)" by simp
  from Cons.IH [OF this step(2)] step
  show ?case by (simp add: apply_all_def p)
qed

lemma apply_all_first:
  assumes "\<forall>(e, a) \<in> set acts. draw_policy a = (True, False)"
    and "\<not> redraw_scheduled s" and "acts \<noteq> []"
  shows "pending (apply_all acts s) = pending s @ [Redraw] \<and> redraw_scheduled (apply_all acts s)
       \<and> draws (apply_all acts s) = draws s \<and> windows (apply_all acts s) = windows s"
proof (cases acts)
  case Nil
  with assms show ?thesis by simp
next
  case (Cons p rest)
  obtain e a where p: "p = (e, a)" by (cases p)
  from assms(1) Cons p have a: "draw_policy a = (True, False)" by simp
  let ?s = "fst (action_apply e a s)"
  from action_apply_async [OF a, of e s] assms(2)
  have step: "pending ?s = pending s @ [Redraw]" "redraw_scheduled ?s" "draws ?s = draws s"
    "windows ?s = windows s"
    by simp_all
  from assms(1) Cons have "\<forall>(e, a) \<in> set rest. draw_policy a = (True, False)" by simp
  from apply_all_scheduled [OF this step(2)] step
  show ?thesis by (simp add: apply_all_def Cons p)
qed

lemma drain_one_redraw:
  assumes "pending s = [Redraw]"
  shows "drain s = s\<lparr>pending := [], draws := draws s @ [(windows s, view s)],
                      redraw_scheduled := False\<rparr>"
proof -
  have "drain s = drain (run_task Redraw (s\<lparr>pending := []\<rparr>))"
    using assms by (rule drain_Cons)
  also have "\<dots> = run_task Redraw (s\<lparr>pending := []\<rparr>)"
    by (rule drain_Nil) (simp add: redraw_def windows_draw_def)
  finally show ?thesis
    by (simp add: redraw_def windows_draw_def)
qed

text \<open>
  C1. Let nothing be scheduled and the flag be clear, and let one or more actions with
  \<open>draw\<close> true and \<open>synchronously_draw\<close> false be applied with no task run in between.
  After each of them exactly one redraw task is waiting and the flag is set (the first
  request schedules the task, every later one is dropped), and nothing has been
  painted yet. When the loop then runs its tasks, \<open>windows.draw()\<close> is called exactly
  once, on the windows and the view as the last action left them, and the flag is
  clear again.
\<close>

theorem debounced_redraw:
  assumes "pending s = []" and "\<not> redraw_scheduled s"
    and "acts \<noteq> []"
    and "\<forall>(e, a) \<in> set acts. draw_policy a = (True, False)"
  shows "(\<forall>k. 0 < k \<and> k \<le> length acts \<longrightarrow>
            pending (apply_all (take k acts) s) = [Redraw]
            \<and> redraw_scheduled (apply_all (take k acts) s)
            \<and> draws (apply_all (take k acts) s) = draws s)
       \<and> draws (drain (apply_all acts s))
           = draws s @ [(windows (apply_all acts s), view (apply_all acts s))]
       \<and> view (drain (apply_all acts s)) = view (apply_all acts s)
       \<and> pending (drain (apply_all acts s)) = []
       \<and> \<not> redraw_scheduled (drain (apply_all acts s))"
proof -
  have prefix: "pending (apply_all (take k acts) s) = [Redraw]
            \<and> redraw_scheduled (apply_all (take k acts) s)
            \<and> draws (apply_all (take k acts) s) = draws s"
    if "0 < k" "k \<le> length acts" for k
  proof -
    from that assms(3) have ne: "take k acts \<noteq> []" by simp
    from assms(4) have "\<forall>(e, a) \<in> set (take k acts). draw_policy a = (True, False)"
      by (auto dest: in_set_takeD)
    from apply_all_first [OF this assms(2) ne] assms(1) show ?thesis by simp
  qed
  from apply_all_first [OF assms(4) assms(2) assms(3)] assms(1)
  have "pending (apply_all acts s) = [Redraw]" and d: "draws (apply_all acts s) = draws s"
    by simp_all
  from drain_one_redraw [OF this(1)] d prefix show ?thesis
    by simp
qed


theorem debounced_redraw_witness:
  "pending (ex_state Map.empty) = []
   \<and> \<not> redraw_scheduled (ex_state Map.empty)
   \<and> draw_policy (AddImageAction ex_add) = (True, False)
   \<and> draw_policy (RemoveImageAction ex_remove_async) = (True, False)
   \<and> pending (apply_all [(ex_env, AddImageAction ex_add),
                           (ex_env, RemoveImageAction ex_remove_async)] (ex_state Map.empty))
       = [Redraw]
   \<and> draws (drain (apply_all [(ex_env, AddImageAction ex_add),
                                (ex_env, RemoveImageAction ex_remove_async)] (ex_state Map.empty)))
       = [([], view (apply_all [(ex_env, AddImageAction ex_add),
                                (ex_env, RemoveImageAction ex_remove_async)] (ex_state Map.empty)))]"
proof -
  let ?acts = "[(ex_env, AddImageAction ex_add), (ex_env, RemoveImageAction ex_remove_async)]"
  have h1: "pending (ex_state Map.empty) = []"
    by (simp add: ex_state_def)
  have h2: "\<not> redraw_scheduled (ex_state Map.empty)"
    by (simp add: ex_state_def)
  have h3: "?acts \<noteq> []"
    by simp
  have p: "draw_policy (AddImageAction ex_add) = (True, False)"
    "draw_policy (RemoveImageAction ex_remove_async) = (True, False)"
    by (simp_all add: ex_add_def ex_remove_async_def)
  then have h4: "\<forall>(e, a) \<in> set ?acts. draw_policy a = (True, False)"
    by simp
  have w: "windows (apply_all ?acts (ex_state Map.empty)) = []"
    using apply_all_first [OF h4 h2 h3] by (simp add: ex_state_def)
  have d: "draws (ex_state Map.empty) = []"
    by (simp add: ex_state_def)
  note r = debounced_redraw [OF h1 h2 h3 h4]
  from r have "0 < (2::nat) \<and> 2 \<le> length ?acts \<longrightarrow>
      pending (apply_all (take 2 ?acts) (ex_state Map.empty)) = [Redraw]
      \<and> redraw_scheduled (apply_all (take 2 ?acts) (ex_state Map.empty))
      \<and> draws (apply_all (take 2 ?acts) (ex_state Map.empty)) = draws (ex_state Map.empty)"
    by blast
  then have a: "pending (apply_all ?acts (ex_state Map.empty)) = [Redraw]"
    by simp
  from r have "draws (drain (apply_all ?acts (ex_state Map.empty)))
       = draws (ex_state Map.empty)
         @ [(windows (apply_all ?acts (ex_state Map.empty)), view (apply_all ?acts (ex_state Map.empty)))]"
    by blast
  with w d have b: "draws (drain (apply_all ?acts (ex_state Map.empty)))
       = [([], view (apply_all ?acts (ex_state Map.empty)))]"
    by simp
  from h1 h2 p a b show ?thesis
    by blast
qed

section \<open>The end of the input\<close>

lemma command_loop_empty_line:
  "command_loop e (before @ [] # rest) s = command_loop e before s"
proof (induction before arbitrary: s)
  case Nil
  show ?case by simp
next
  case (Cons line before)
  show ?case
    by (simp add: Cons.IH split: prod.splits sum.splits)
qed

text \<open>
  C5, as the spec states it: an empty line read from standard input ends the consumer
  and triggers shutdown, as the closing of the stream does. The code does not do so. A
  line of the input carries the newline that ends it, so an empty line is a lone
  newline, which is not an empty string: its text, empty once the newline is cut off,
  goes to the decoder, which rejects it, the error is reported and the \<open>remove\<close> on
  the next line is applied. Only the empty string, which the reader returns at the end
  of the stream, ends the consumer: then the \<open>remove\<close> is not applied.
\<close>

theorem blank_line_counterexample:
  "butlast [CHR 0x0A] = []
   \<and> reports (fst (main_commands cx_env [[CHR 0x0A], cx_line_remove]
                     (ex_state [KStr ''a'' \<mapsto> ex_placement 5]))) = [ValueError]
   \<and> media (view (fst (main_commands cx_env [[CHR 0x0A], cx_line_remove]
                          (ex_state [KStr ''a'' \<mapsto> ex_placement 5])))) (KStr ''a'') = None
   \<and> media (view (fst (main_commands cx_env [[], cx_line_remove]
                          (ex_state [KStr ''a'' \<mapsto> ex_placement 5])))) (KStr ''a'')
       = Some (ex_placement 5)"
proof -
  have b: "command_try cx_env [CHR 0x0A] s = (s, Inl ValueError)" for s
    by (simp add: command_try_def cx_env_def ex_env_def cx_parse_def)
  have r: "media (view (fst (command_try cx_env cx_line_remove s))) (KStr ''a'') = None
      \<and> reports (fst (command_try cx_env cx_line_remove s)) = reports s
      \<and> snd (command_try cx_env cx_line_remove s) = Inr ()" for s
    by (simp add: command_try_def cx_env_def ex_env_def cx_line_remove_def cx_parse_def Command_def
        action_class_def new_RemoveImageAction_def keywords_ok_def keyword_def keyword_or_def
        and_then_def RemoveImageAction_apply_def remove_image_try_def view_DrawAction_apply
        reports_DrawAction_apply domIff)
  have n: "cx_line_remove \<noteq> []"
    by (simp add: cx_line_remove_def)
  have h: "handled ValueError"
    by (simp add: handled_def)
  let ?s = "ex_state [KStr ''a'' \<mapsto> ex_placement 5]"
  have l: "command_loop cx_env [[CHR 0x0A], cx_line_remove] ?s
      = (fst (command_try cx_env cx_line_remove (print_error ValueError ?s)), None)"
    using b h n r [of "print_error ValueError ?s"]
    by (simp add: split_beta split: sum.splits)
  have "reports (fst (main_commands cx_env [[CHR 0x0A], cx_line_remove] ?s))
      = reports (fst (command_try cx_env cx_line_remove (print_error ValueError ?s)))"
    by (simp only: main_commands_def l) (simp add: ensure_future_def)
  also have "\<dots> = reports (print_error ValueError ?s)"
    using r [of "print_error ValueError ?s"] by simp
  also have "\<dots> = [ValueError]"
    by (simp add: print_error_def ex_state_def)
  finally have "reports (fst (main_commands cx_env [[CHR 0x0A], cx_line_remove] ?s)) = [ValueError]" .
  moreover have "media (view (fst (main_commands cx_env [[CHR 0x0A], cx_line_remove] ?s))) (KStr ''a'') = None"
    using r [of "print_error ValueError ?s"]
    by (simp only: main_commands_def l) (simp add: ensure_future_def)
  moreover have "media (view (fst (main_commands cx_env [[], cx_line_remove] ?s))) (KStr ''a'')
       = Some (ex_placement 5)"
    by (simp add: main_commands_def ensure_future_def ex_state_def)
  ultimately show ?thesis by simp
qed

text \<open>
  C5, amended. When the reader returns the empty string, which it does once the stream
  is at its end, the consumer ends normally and the shutdown routine is scheduled,
  whatever follows: the outcome is that of the stream being closed at this point. An
  empty input line, which still carries its newline, does not end the consumer: it is
  decoded like any other line, and when the decoder rejects the empty text with a
  handled exception, the error is reported and the consumer goes on with the next
  line.
\<close>

theorem empty_string_ends_consumer:
  "main_commands e ([] # rest) s = (s\<lparr>pending := pending s @ [Shutdown]\<rparr>, None)
   \<and> main_commands e [] s = (s\<lparr>pending := pending s @ [Shutdown]\<rparr>, None)
   \<and> main_commands e (before @ [] # rest) s = main_commands e before s
   \<and> (parse e [] = Inl err \<and> handled err \<longrightarrow>
        command_loop e ([CHR 0x0A] # rest) s
        = command_loop e rest (s\<lparr>reports := reports s @ [err]\<rparr>))"
  by (simp add: main_commands_def ensure_future_def command_loop_empty_line command_try_def
      print_error_def)

theorem empty_string_ends_consumer_witness:
  "main_commands cx_env [[], cx_line_remove] (ex_state Map.empty)
     = ((ex_state Map.empty)\<lparr>pending := [Shutdown]\<rparr>, None)
   \<and> parse cx_env [] = Inl ValueError
   \<and> handled ValueError
   \<and> command_loop cx_env [[CHR 0x0A], cx_line_remove] (ex_state Map.empty)
       = command_loop cx_env [cx_line_remove]
           ((ex_state Map.empty)\<lparr>reports := reports (ex_state Map.empty) @ [ValueError]\<rparr>)"
proof -
  have p: "parse cx_env [] = Inl ValueError"
    by (simp add: cx_env_def ex_env_def cx_parse_def)
  have h: "handled ValueError"
    by (simp add: handled_def)
  note t = empty_string_ends_consumer [of cx_env "[cx_line_remove]" "ex_state Map.empty" "[]" ValueError]
  from t have a: "main_commands cx_env [[], cx_line_remove] (ex_state Map.empty)
     = ((ex_state Map.empty)\<lparr>pending := [Shutdown]\<rparr>, None)"
    by (simp add: ex_state_def)
  from t p h have b: "command_loop cx_env [[CHR 0x0A], cx_line_remove] (ex_state Map.empty)
       = command_loop cx_env [cx_line_remove]
           ((ex_state Map.empty)\<lparr>reports := reports (ex_state Map.empty) @ [ValueError]\<rparr>)"
    by blast
  from a p h b show ?thesis by blast
qed

section \<open>Failures at the command consumer\<close>

lemma reports_add_image_try: "reports (fst (add_image_try e a s)) = reports s"
  by (simp add: add_image_try_def Let_def store_placement_def split: sum.splits)

lemma reports_action_apply: "reports (fst (action_apply e a s)) = reports s"
  by (cases a)
    (simp_all add: AddImageAction_apply_def RemoveImageAction_apply_def split_beta
      reports_DrawAction_apply reports_add_image_try remove_image_try_def)

lemma reports_command_try: "reports (fst (command_try e line s)) = reports s"
  by (simp add: command_try_def reports_action_apply split: sum.splits option.splits)

lemma command_loop_all_handled:
  assumes "\<forall>line \<in> set lines. \<forall>s s' err. command_try e line s = (s', Inl err) \<longrightarrow> handled err"
  shows "snd (command_loop e lines s) = None"
  using assms
proof (induction lines arbitrary: s)
  case Nil
  show ?case by simp
next
  case (Cons line lines)
  from Cons.prems have rest: "\<forall>line \<in> set lines. \<forall>s s' err. command_try e line s = (s', Inl err) \<longrightarrow> handled err"
    by simp
  show ?case
  proof (cases "command_try e line s")
    case (Pair s' r)
    show ?thesis
    proof (cases r)
      case (Inl err)
      with Pair Cons.prems have "handled err" by auto
      with Pair Inl Cons.IH [OF rest] show ?thesis by simp
    next
      case (Inr u)
      with Pair Cons.IH [OF rest] show ?thesis by simp
    qed
  qed
qed

text \<open>
  C3. No decode or apply failure of a single command may end the consumer: it is to
  be caught, reported, and the next line read. The code misses one case. In the line
  whose \<open>x\<close> is \<open>1e999\<close> the decoder gives the float infinity, the converter \<open>int\<close>
  raises \<open>OverflowError\<close>, and the handler names \<open>OSError\<close>, \<open>KeyError\<close>, \<open>ValueError\<close>
  and \<open>TypeError\<close> only: the exception leaves the consumer, no report is printed, the
  \<open>remove\<close> on the next line is not applied, and the shutdown routine is scheduled.
\<close>

theorem infinite_number_leaves_consumer:
  "cx_line_add \<noteq> []
   \<and> command_try cx_env cx_line_add (ex_state [KStr ''a'' \<mapsto> ex_placement 5])
       = (ex_state [KStr ''a'' \<mapsto> ex_placement 5], Inl OverflowError)
   \<and> main_commands cx_env [cx_line_add, cx_line_remove] (ex_state [KStr ''a'' \<mapsto> ex_placement 5])
       = ((ex_state [KStr ''a'' \<mapsto> ex_placement 5])\<lparr>pending := [Shutdown]\<rparr>, Some OverflowError)"
proof -
  have t: "command_try cx_env cx_line_add (ex_state [KStr ''a'' \<mapsto> ex_placement 5])
       = (ex_state [KStr ''a'' \<mapsto> ex_placement 5], Inl OverflowError)"
    by (simp add: command_try_def cx_env_def ex_env_def cx_line_add_def cx_parse_def Command_def
        action_class_def new_AddImageAction_def keywords_ok_def keyword_def keyword_or_def
        and_then_def)
  have n: "cx_line_add \<noteq> []"
    by (simp add: cx_line_add_def)
  have h: "\<not> handled OverflowError"
    by (simp add: handled_def)
  from t n h have "command_loop cx_env [cx_line_add, cx_line_remove] (ex_state [KStr ''a'' \<mapsto> ex_placement 5])
       = (ex_state [KStr ''a'' \<mapsto> ex_placement 5], Some OverflowError)"
    by simp
  then have "main_commands cx_env [cx_line_add, cx_line_remove] (ex_state [KStr ''a'' \<mapsto> ex_placement 5])
       = ((ex_state [KStr ''a'' \<mapsto> ex_placement 5])\<lparr>pending := [Shutdown]\<rparr>, Some OverflowError)"
    by (simp add: main_commands_def ensure_future_def ex_state_def)
  with t n show ?thesis by blast
qed

text \<open>
  Every other failure of a command is caught. An unknown action is a \<open>ValueError\<close>, a
  missing one a \<open>KeyError\<close>, an unexpected or missing keyword a \<open>TypeError\<close>, a text or
  a NaN that is no integer a \<open>ValueError\<close>, \<open>None\<close> for a number a \<open>TypeError\<close>. So when the collaborators raise handled
  exceptions only and no decoded field is an infinite number, each failure is
  reported, the consumer goes on with the next line, and no exception leaves it.
\<close>

lemma and_then_Inl:
  "and_then r f = Inl err \<Longrightarrow> r = Inl err \<or> (\<exists>v. r = Inr v \<and> f v = Inl err)"
  by (cases r) (simp_all add: and_then_def)

lemma py_int_failure:
  assumes "py_int p v = Inl err" and "v \<noteq> PFloat PosInf" and "v \<noteq> PFloat NegInf"
  shows "err = ValueError \<or> err = TypeError"
  using assms by (induction p v rule: py_int.induct) (auto split: option.splits)

lemma keyword_failure: "keyword data k = Inl err \<Longrightarrow> err = TypeError"
  by (simp add: keyword_def split: option.splits)

lemma keyword_value: "keyword data k = Inr v \<Longrightarrow> map_of data k = Some v"
  by (simp add: keyword_def split: option.splits)

lemma keyword_or_cases: "keyword_or data k d = d \<or> map_of data k = Some (keyword_or data k d)"
  by (simp add: keyword_or_def split: option.splits)

lemma finite_numbers_lookup:
  "finite_numbers data \<Longrightarrow> map_of data k = Some v \<Longrightarrow> v \<noteq> PFloat PosInf \<and> v \<noteq> PFloat NegInf"
  by (auto simp: finite_numbers_def dest!: map_of_SomeD)

lemma py_int_keyword_failure:
  assumes "finite_numbers data"
    and "and_then (keyword data k) (py_int p) = Inl err"
  shows "handled err"
proof -
  from and_then_Inl [OF assms(2)]
  show ?thesis
  proof
    assume "keyword data k = Inl err"
    then show ?thesis by (simp add: keyword_failure handled_def)
  next
    assume "\<exists>v. keyword data k = Inr v \<and> py_int p v = Inl err"
    then obtain v where v: "map_of data k = Some v" "py_int p v = Inl err"
      by (auto dest: keyword_value)
    from finite_numbers_lookup [OF assms(1) v(1)] py_int_failure [OF v(2)]
    show ?thesis by (simp add: handled_def)
  qed
qed

lemma py_int_keyword_or_failure:
  assumes "finite_numbers data"
    and "py_int p (keyword_or data k (PInt 0)) = Inl err"
  shows "handled err"
proof -
  from keyword_or_cases [of data k "PInt 0"]
  have "keyword_or data k (PInt 0) \<noteq> PFloat PosInf \<and> keyword_or data k (PInt 0) \<noteq> PFloat NegInf"
  proof
    assume "keyword_or data k (PInt 0) = PInt 0"
    then show ?thesis by simp
  next
    assume "map_of data k = Some (keyword_or data k (PInt 0))"
    from finite_numbers_lookup [OF assms(1) this] show ?thesis .
  qed
  with py_int_failure [OF assms(2)] show ?thesis
    by (simp add: handled_def)
qed

lemma new_AddImageAction_failure:
  assumes tb: "\<forall>v err. to_bool e v = Inl err \<longrightarrow> handled err"
    and fin: "finite_numbers data"
    and f: "new_AddImageAction e data = Inl err"
  shows "handled err"
proof -
  note i = py_int_keyword_failure [OF fin] and d = py_int_keyword_or_failure [OF fin]
  have k: "keyword data k = Inl err \<Longrightarrow> handled err" for k
    by (simp add: keyword_failure handled_def)
  have t: "handled TypeError"
    by (simp add: handled_def)
  from f show ?thesis
    unfolding new_AddImageAction_def
    apply (simp split: if_splits add: t)
    apply (drule and_then_Inl, erule disjE, simp add: tb, clarify)
    apply (drule and_then_Inl, erule disjE, simp add: tb, clarify)
    apply (drule and_then_Inl, erule disjE, simp add: k, clarify)
    apply (drule and_then_Inl, erule disjE, simp add: i, clarify)
    apply (drule and_then_Inl, erule disjE, simp add: i, clarify)
    apply (drule and_then_Inl, erule disjE, simp add: k, clarify)
    apply (drule and_then_Inl, erule disjE, simp add: d, clarify)
    apply (drule and_then_Inl, erule disjE, simp add: d, clarify)
    apply (drule and_then_Inl, erule disjE, simp add: d, clarify)
    apply (drule and_then_Inl, erule disjE, simp add: d, clarify)
    done
qed

lemma new_RemoveImageAction_failure:
  assumes tb: "\<forall>v err. to_bool e v = Inl err \<longrightarrow> handled err"
    and f: "new_RemoveImageAction e data = Inl err"
  shows "handled err"
proof -
  have k: "keyword data k = Inl err \<Longrightarrow> handled err" for k
    by (simp add: keyword_failure handled_def)
  have t: "handled TypeError"
    by (simp add: handled_def)
  from f show ?thesis
    unfolding new_RemoveImageAction_def
    apply (simp split: if_splits add: t)
    apply (drule and_then_Inl, erule disjE, simp add: tb, clarify)
    apply (drule and_then_Inl, erule disjE, simp add: tb, clarify)
    apply (drule and_then_Inl, erule disjE, simp add: k, clarify)
    done
qed

lemma load_image_failure: "load_image e p = Inl err \<Longrightarrow> image_open e p = Inl err"
  by (simp add: load_image_def Let_def split: sum.splits if_splits)

lemma action_apply_failure:
  assumes mt: "\<forall>p err. getmtime e p = Inl err \<longrightarrow> handled err"
    and op: "\<forall>p err. image_open e p = Inl err \<longrightarrow> handled err"
    and f: "action_apply e a s = (s', Inl err)"
  shows "handled err"
proof (cases a)
  case (AddImageAction b)
  with f have "snd (add_image_try e b s) = Inl err"
    by (simp add: AddImageAction_apply_def split_beta)
  then have "getmtime e (path b) = Inl err \<or> load_image e (path b) = Inl err"
    by (auto simp: add_image_try_def Let_def split: sum.splits if_splits)
  with mt op load_image_failure show ?thesis by blast
next
  case (RemoveImageAction b)
  with f show ?thesis
    by (simp add: RemoveImageAction_apply_def remove_image_try_def split_beta split: if_splits)
qed

lemma command_try_failure_handled:
  assumes "\<forall>l err. parse e l = Inl err \<longrightarrow> handled err"
    and "\<forall>v err. to_bool e v = Inl err \<longrightarrow> handled err"
    and "\<forall>p err. getmtime e p = Inl err \<longrightarrow> handled err"
    and "\<forall>p err. image_open e p = Inl err \<longrightarrow> handled err"
    and "\<forall>l data. parse e l = Inr data \<longrightarrow> finite_numbers data"
    and "command_try e line s = (s', Inl err)"
  shows "handled err"
proof (cases "parse e (butlast line)")
  case (Inl perr)
  with assms(1,6) show ?thesis
    by (auto simp: command_try_def)
next
  case (Inr data)
  with assms(5) have fin: "finite_numbers data" by blast
  show ?thesis
  proof (cases "map_of data ''action''")
    case None
    with Inr assms(6) show ?thesis
      by (simp add: command_try_def handled_def)
  next
    case (Some v)
    show ?thesis
    proof (cases "Command v")
      case (Inl cerr)
      then have "cerr = ValueError"
        by (simp add: Command_def split: if_splits)
      with Inr Some Inl assms(6) show ?thesis
        by (simp add: command_try_def handled_def)
    next
      case c: (Inr command)
      show ?thesis
      proof (cases "action_class command e data")
        case (Inl aerr)
        then have "new_AddImageAction e data = Inl aerr \<or> new_RemoveImageAction e data = Inl aerr"
          by (cases command) (auto simp: action_class_def dest: and_then_Inl)
        with new_AddImageAction_failure [OF assms(2) fin]
          new_RemoveImageAction_failure [OF assms(2)]
        have "handled aerr" by blast
        with Inr Some c Inl assms(6) show ?thesis
          by (simp add: command_try_def)
      next
        case a: (Inr a)
        with Inr Some c assms(6) have "action_apply e a s = (s', Inl err)"
          by (simp add: command_try_def)
        from action_apply_failure [OF assms(3,4) this] show ?thesis .
      qed
    qed
  qed
qed

lemma listed_failures:
  assumes "parse e (butlast line) = Inr data"
  shows "(map_of data ''action'' = None \<longrightarrow> command_try e line s = (s, Inl KeyError))
    \<and> (\<forall>v. map_of data ''action'' = Some v \<and> v \<noteq> PStr ''add'' \<and> v \<noteq> PStr ''remove'' \<longrightarrow>
          command_try e line s = (s, Inl ValueError))
    \<and> (map_of data ''action'' = Some (PStr ''add'')
        \<and> \<not> keywords_ok
              [''action'', ''draw'', ''synchronously_draw'', ''identifier'', ''x'', ''y'', ''path'',
               ''width'', ''max_width'', ''height'', ''max_height'']
              [''identifier'', ''x'', ''y'', ''path''] data \<longrightarrow>
          command_try e line s = (s, Inl TypeError))
    \<and> (map_of data ''action'' = Some (PStr ''remove'')
        \<and> \<not> keywords_ok [''action'', ''draw'', ''synchronously_draw'', ''identifier'']
              [''identifier''] data \<longrightarrow>
          command_try e line s = (s, Inl TypeError))"
  using assms
  by (simp add: command_try_def Command_def action_class_def new_AddImageAction_def
      new_RemoveImageAction_def and_then_def)

lemma bad_literal:
  "str_to_int e t = None \<Longrightarrow> py_int (str_to_int e) (PStr t) = Inl ValueError"
  "py_int (str_to_int e) (PFloat (NaN n)) = Inl ValueError"
  "py_int (str_to_int e) PNone = Inl TypeError"
  by simp_all

lemma failures_never_end_consumer:
  assumes "\<forall>l err. parse e l = Inl err \<longrightarrow> handled err"
    and "\<forall>v err. to_bool e v = Inl err \<longrightarrow> handled err"
    and "\<forall>p err. getmtime e p = Inl err \<longrightarrow> handled err"
    and "\<forall>p err. image_open e p = Inl err \<longrightarrow> handled err"
    and "\<forall>l data. parse e l = Inr data \<longrightarrow> finite_numbers data"
  shows "snd (main_commands e lines s) = None
    \<and> (line \<noteq> [] \<and> command_try e line s = (s', Inl err) \<longrightarrow>
         command_loop e (line # rest) s = command_loop e rest (s'\<lparr>reports := reports s @ [err]\<rparr>))"
proof -
  have h: "\<forall>line \<in> set lines. \<forall>s s' err. command_try e line s = (s', Inl err) \<longrightarrow> handled err"
    for lines
    using command_try_failure_handled [OF assms] by blast
  from command_loop_all_handled [OF h, of lines s]
  have 1: "snd (main_commands e lines s) = None"
    by (simp add: main_commands_def split_beta)
  have 2: "command_loop e (line # rest) s = command_loop e rest (s'\<lparr>reports := reports s @ [err]\<rparr>)"
    if "line \<noteq> []" "command_try e line s = (s', Inl err)"
  proof -
    from command_try_failure_handled [OF assms that(2)] have "handled err" .
    moreover from reports_command_try [of e line s] that(2) have "reports s' = reports s" by simp
    ultimately show ?thesis
      using that by (simp add: print_error_def)
  qed
  from 1 2 show ?thesis by blast
qed

section \<open>Loading an image\<close>

lemma paste_masked_nth:
  assumes "i < length (pixels im)" and "length (pixels dst) = length (pixels im)"
    and "length (pixels msk) = length (pixels im)"
  shows "pixels (paste e dst im (Some msk)) ! i
       = map (\<lambda>(c, v). paste_band e (pixels msk ! i ! 0) c v)
             (zip (pixels dst ! i) (rgb_of e im (pixels im ! i)))"
  using assms by (simp add: paste_def)

lemma paste_mode: "mode (paste e dst im m) = mode dst \<and> imsize (paste e dst im m) = imsize dst"
  by (simp add: paste_def split: option.splits)

lemma map_paste_band_0:
  "length cur = length src \<Longrightarrow> map (\<lambda>(c, v). paste_band e 0 c v) (zip cur src) = cur"
  by (induction cur src rule: list_induct2) (simp_all add: paste_band_def)

lemma map_paste_band_255:
  "length cur = length src \<Longrightarrow> map (\<lambda>(c, v). paste_band e 255 c v) (zip cur src) = src"
  by (induction cur src rule: list_induct2) (simp_all add: paste_band_def)

lemma rgba_condition: "str_in ''RGBA'' ''RGBA'' \<and> length (mode_bands ''RGBA'') = 4"
  by (simp add: mode_bands_def)

lemma split_im_alpha:
  "mode im = ''RGBA'' \<Longrightarrow>
   pixels (split_im im ! INDEX_ALPHA_CHANNEL) = map (\<lambda>p. [p ! 3]) (pixels im)"
  by (simp add: split_im_def getbands_def mode_bands_def INDEX_ALPHA_CHANNEL_def numeral_3_eq_3)

lemma load_image_composited:
  assumes "image_open e p = Inr opened_image"
    and "im = (if mode opened_image = ''P'' then convert e ''RGBA'' opened_image else opened_image)"
    and "mode im = ''RGBA''"
  shows "load_image e p
    = Inr (paste e (new ''RGB'' (imsize im) [255, 255, 255]) im (Some (split_im im ! INDEX_ALPHA_CHANNEL)))"
  using assms rgba_condition
  by (simp add: load_image_def Let_def getbands_def)

lemma load_image_mode:
  assumes "image_open e p = Inr opened_image"
    and "im = (if mode opened_image = ''P'' then convert e ''RGBA'' opened_image else opened_image)"
  shows "\<exists>r. load_image e p = Inr r \<and> mode r = ''RGB'' \<and> imsize r = imsize im"
  using assms
  by (simp add: load_image_def Let_def paste_mode new_def)

text \<open>
  C6, as the spec states it: every image that carries a transparency channel is
  composited onto white, so its transparent pixels come out white. The code does so
  only for the mode \<open>RGBA\<close>. A greyscale image with alpha (mode \<open>LA\<close>) takes the other
  branch and is pasted without a mask: its fully transparent black pixel is stored as
  black.
\<close>

theorem load_image_la_counterexample:
  "image_open ex_img_env (PStr ''/tmp/la.png'') = Inr ex_la_image
   \<and> getbands ex_la_image = [''L'', ''A'']
   \<and> pixels ex_la_image ! 0 = [0, 0]
   \<and> load_image ex_img_env (PStr ''/tmp/la.png'')
       = Inr \<lparr>mode = ''RGB'', imsize = (1, 1), pixels = [[0, 0, 0]]\<rparr>"
  by (simp add: ex_img_env_def ex_env_def ex_la_image_def getbands_def mode_bands_def
      load_image_def new_def paste_def rgb_of_def)

text \<open>
  C6, amended. Every image that \<open>load_image\<close> returns has the mode \<open>RGB\<close>, so no
  transparency channel, and the size of the source. A palette image is expanded to
  \<open>RGBA\<close> first. An image whose mode is then \<open>RGBA\<close> is composited onto opaque white
  with its alpha band as the mask: a pixel whose alpha is 0 is white, a pixel whose
  alpha is 255 keeps its colour, and the alpha is dropped.
\<close>

theorem load_image_rgb:
  assumes "image_open e p = Inr opened_image"
    and "im = (if mode opened_image = ''P'' then convert e ''RGBA'' opened_image else opened_image)"
  shows "\<exists>r. load_image e p = Inr r \<and> mode r = ''RGB'' \<and> getbands r = [''R'', ''G'', ''B'']
       \<and> imsize r = imsize im
       \<and> (mode im = ''RGBA'' \<and> wf_image im \<longrightarrow>
            length (pixels r) = length (pixels im)
            \<and> (\<forall>i < length (pixels im).
                 (pixels im ! i ! 3 = 0 \<longrightarrow> pixels r ! i = [255, 255, 255])
                 \<and> (pixels im ! i ! 3 = 255 \<longrightarrow> pixels r ! i = take 3 (pixels im ! i))))"
proof -
  from load_image_mode [OF assms] obtain r where
    r: "load_image e p = Inr r" "mode r = ''RGB''" "imsize r = imsize im"
    by blast
  have bands: "getbands r = [''R'', ''G'', ''B'']"
    using r(2) by (simp add: getbands_def mode_bands_def)
  have px: "length (pixels r) = length (pixels im)
            \<and> (\<forall>i < length (pixels im).
                 (pixels im ! i ! 3 = 0 \<longrightarrow> pixels r ! i = [255, 255, 255])
                 \<and> (pixels im ! i ! 3 = 255 \<longrightarrow> pixels r ! i = take 3 (pixels im ! i)))"
    if m: "mode im = ''RGBA''" and wf: "wf_image im"
  proof -
    let ?dst = "new ''RGB'' (imsize im) [255, 255, 255]"
    let ?msk = "split_im im ! INDEX_ALPHA_CHANNEL"
    from load_image_composited [OF assms m] r(1) have req: "r = paste e ?dst im (Some ?msk)"
      by simp
    from wf have n: "length (pixels ?dst) = length (pixels im)"
      by (simp add: wf_image_def new_def)
    have k: "length (pixels ?msk) = length (pixels im)"
      by (simp add: split_im_alpha [OF m])
    have len: "length (pixels r) = length (pixels im)"
      using n k by (simp add: req paste_def)
    have each: "(pixels im ! i ! 3 = 0 \<longrightarrow> pixels r ! i = [255, 255, 255])
                 \<and> (pixels im ! i ! 3 = 255 \<longrightarrow> pixels r ! i = take 3 (pixels im ! i))"
      if i: "i < length (pixels im)" for i
    proof -
      from wf i m have four: "length (pixels im ! i) = 4"
        by (simp add: wf_image_def getbands_def mode_bands_def)
      from i wf have d: "pixels ?dst ! i = [255, 255, 255]"
        by (simp add: new_def wf_image_def)
      from i have a: "pixels ?msk ! i ! 0 = pixels im ! i ! 3"
        by (simp add: split_im_alpha [OF m])
      have c: "rgb_of e im (pixels im ! i) = take 3 (pixels im ! i)"
        using m by (simp add: rgb_of_def)
      have l: "length [255, 255, 255 :: nat] = length (take 3 (pixels im ! i))"
        using four by simp
      from paste_masked_nth [OF i n k, of e]
      have "pixels r ! i = map (\<lambda>(c, v). paste_band e (pixels im ! i ! 3) c v)
             (zip [255, 255, 255] (take 3 (pixels im ! i)))"
        by (simp only: req d a c)
      with map_paste_band_0 [OF l, of e] map_paste_band_255 [OF l, of e] show ?thesis
        by auto
    qed
    from len each show ?thesis by blast
  qed
  from r bands px show ?thesis by blast
qed

theorem load_image_rgb_witness:
  "image_open ex_img_env (PStr ''/tmp/p.png'') = Inr ex_p_image
   \<and> mode (convert ex_img_env ''RGBA'' ex_p_image) = ''RGBA''
   \<and> wf_image (convert ex_img_env ''RGBA'' ex_p_image)
   \<and> pixels (convert ex_img_env ''RGBA'' ex_p_image) = [[10, 20, 30, 0], [40, 50, 60, 255]]
   \<and> mode (projr (load_image ex_img_env (PStr ''/tmp/p.png''))) = ''RGB''
   \<and> pixels (projr (load_image ex_img_env (PStr ''/tmp/p.png''))) ! 0 = [255, 255, 255]
   \<and> pixels (projr (load_image ex_img_env (PStr ''/tmp/p.png''))) ! 1 = [40, 50, 60]"
proof -
  let ?im = "convert ex_img_env ''RGBA'' ex_p_image"
  have h1: "image_open ex_img_env (PStr ''/tmp/p.png'') = Inr ex_p_image"
    by (simp add: ex_img_env_def ex_env_def)
  have h2: "?im = (if mode ex_p_image = ''P'' then convert ex_img_env ''RGBA'' ex_p_image
                   else ex_p_image)"
    by (simp add: ex_p_image_def)
  have px: "pixels ?im = [[10, 20, 30, 0], [40, 50, 60, 255]]"
    by (simp add: convert_def ex_img_env_def ex_env_def ex_p_image_def)
  have m: "mode ?im = ''RGBA''"
    by (simp add: convert_def)
  have wf: "wf_image ?im"
    by (simp add: wf_image_def px getbands_def m mode_bands_def) (simp add: convert_def ex_p_image_def)
  from load_image_rgb [OF h1 h2] m wf obtain r where
    r: "load_image ex_img_env (PStr ''/tmp/p.png'') = Inr r" "mode r = ''RGB''"
    and each: "\<forall>i < length (pixels ?im).
                 (pixels ?im ! i ! 3 = 0 \<longrightarrow> pixels r ! i = [255, 255, 255])
                 \<and> (pixels ?im ! i ! 3 = 255 \<longrightarrow> pixels r ! i = take 3 (pixels ?im ! i))"
    by blast
  from each have "pixels r ! 0 = [255, 255, 255]" and "pixels r ! 1 = [40, 50, 60]"
    by (simp_all add: px)
  with r h1 m wf px show ?thesis
    by simp
qed

section \<open>Re-enumeration\<close>

lemma map_of_rev_keyed:
  assumes "k \<in> f ` set xs"
  shows "\<exists>v. map_of (rev (map (\<lambda>v. (f v, v)) xs)) k = Some v \<and> v \<in> set xs \<and> f v = k"
proof -
  from assms have "k \<in> fst ` set (rev (map (\<lambda>v. (f v, v)) xs))"
    by force
  then have "map_of (rev (map (\<lambda>v. (f v, v)) xs)) k \<noteq> None"
    by (simp only: map_of_eq_None_iff not_not)
  then obtain v where v: "map_of (rev (map (\<lambda>v. (f v, v)) xs)) k = Some v"
    by blast
  from map_of_SomeD [OF v] have "v \<in> set xs \<and> f v = k"
    by auto
  with v show ?thesis by blast
qed

lemma map_of_rev_keyed_distinct:
  assumes "distinct (map f xs)" and "v \<in> set xs"
  shows "map_of (rev (map (\<lambda>v. (f v, v)) xs)) (f v) = Some v"
proof -
  from assms(2) have "f v \<in> f ` set xs" by simp
  from map_of_rev_keyed [OF this] obtain u where
    u: "map_of (rev (map (\<lambda>v. (f v, v)) xs)) (f v) = Some u" "u \<in> set xs" "f u = f v"
    by blast
  from assms u(2,3) have "u = v"
    by (meson distinct_map inj_onD)
  with u(1) show ?thesis by simp
qed

lemma sym_diff_added: "((X - Y) \<union> (Y - X)) \<inter> X = X - Y"
  by blast

lemma sym_diff_removed: "((X - Y) \<union> (Y - X)) \<inter> Y = Y - X"
  by blast

lemma append_created_if:
  "(if A \<noteq> {} then t\<lparr>windows := windows t @ create (map f (sorted_list_of_set A))\<rparr> else t)
   = t\<lparr>windows := windows t @ create (map f (sorted_list_of_set A))\<rparr>"
  by (simp add: create_def)

lemma filter_removed_if:
  "(if A \<noteq> {} then t\<lparr>windows := filter (\<lambda>w. w \<notin> set (map f (sorted_list_of_set A))) (windows t)\<rparr>
    else t)
   = t\<lparr>windows := filter (\<lambda>w. w \<notin> set (map f (sorted_list_of_set A))) (windows t)\<rparr>"
  by simp

lemma query_windows_unfold:
  "query_windows infos off s =
    (let P = parent_window_ids infos;
         C = current_window_ids (windows s);
         mp = map_of (rev (map (\<lambda>info. (window_id info, info)) infos));
         mc = map_of (rev (map (\<lambda>w. (window_id (parent_window w), w)) (windows s)));
         s3 = s\<lparr>view := (view s)\<lparr>offset := off\<rparr>,
                windows :=
                  filter (\<lambda>w. w \<notin> set (map (\<lambda>wid. the (mc wid)) (sorted_list_of_set (C - P))))
                    (windows s @ create (map (\<lambda>wid. the (mp wid)) (sorted_list_of_set (P - C))))\<rparr>
     in if P = C then s3 else windows_draw s3)"
proof -
  have e: "(X - Y = {} \<and> Y - X = {}) = (X = Y)" for X Y :: "nat set"
    by blast
  show ?thesis
    unfolding query_windows_def Let_def windows_iadd_def windows_isub_def
      sym_diff_added sym_diff_removed append_created_if filter_removed_if
    by (auto simp: e)
qed

lemma finite_ids: "finite (parent_window_ids infos)" "finite (current_window_ids ws)"
  by (simp_all add: parent_window_ids_def current_window_ids_def)

lemma created_ids:
  "map (\<lambda>w. window_id (parent_window w))
     (create (map (\<lambda>wid. the (map_of (rev (map (\<lambda>info. (window_id info, info)) infos)) wid))
                  (sorted_list_of_set (parent_window_ids infos - C))))
   = sorted_list_of_set (parent_window_ids infos - C)"
proof -
  have "window_id (the (map_of (rev (map (\<lambda>info. (window_id info, info)) infos)) wid)) = wid"
    if "wid \<in> parent_window_ids infos" for wid
  proof -
    from that have "wid \<in> window_id ` set infos"
      by (simp add: parent_window_ids_def)
    from map_of_rev_keyed [OF this] show ?thesis by auto
  qed
  then have "map (\<lambda>wid. window_id (the (map_of (rev (map (\<lambda>info. (window_id info, info)) infos)) wid)))
      (sorted_list_of_set (parent_window_ids infos - C))
    = sorted_list_of_set (parent_window_ids infos - C)"
    by (intro map_idI) (simp add: finite_ids)
  then show ?thesis
    by (simp add: create_def comp_def)
qed

lemma created_from_infos:
  assumes "w \<in> set (create (map (\<lambda>wid. the (map_of (rev (map (\<lambda>info. (window_id info, info)) infos)) wid))
                  (sorted_list_of_set (parent_window_ids infos - C))))"
  shows "parent_window w \<in> set infos"
proof -
  from assms obtain wid where wid: "wid \<in> parent_window_ids infos"
    and w: "w = \<lparr>parent_window = the (map_of (rev (map (\<lambda>info. (window_id info, info)) infos)) wid)\<rparr>"
    by (auto simp: create_def finite_ids)
  from wid have "wid \<in> window_id ` set infos"
    by (simp add: parent_window_ids_def)
  from map_of_rev_keyed [OF this] w show ?thesis by auto
qed

lemma removed_windows:
  assumes "distinct (map (\<lambda>w. window_id (parent_window w)) ws)" and "w \<in> set ws"
  shows "(w \<in> set (map (\<lambda>wid. the (map_of (rev (map (\<lambda>w. (window_id (parent_window w), w)) ws)) wid))
                    (sorted_list_of_set (current_window_ids ws - P))))
         = (window_id (parent_window w) \<notin> P)"
proof
  assume "w \<in> set (map (\<lambda>wid. the (map_of (rev (map (\<lambda>w. (window_id (parent_window w), w)) ws)) wid))
                    (sorted_list_of_set (current_window_ids ws - P)))"
  then obtain wid where wid: "wid \<in> current_window_ids ws" "wid \<notin> P"
    and w: "w = the (map_of (rev (map (\<lambda>w. (window_id (parent_window w), w)) ws)) wid)"
    by (auto simp: finite_ids)
  from wid(1) have "wid \<in> (\<lambda>w. window_id (parent_window w)) ` set ws"
    by (simp add: current_window_ids_def)
  from map_of_rev_keyed [OF this] w wid(2) show "window_id (parent_window w) \<notin> P"
    by auto
next
  assume n: "window_id (parent_window w) \<notin> P"
  from assms(2) have c: "window_id (parent_window w) \<in> current_window_ids ws"
    by (simp add: current_window_ids_def)
  from map_of_rev_keyed_distinct [OF assms]
  have "the (map_of (rev (map (\<lambda>w. (window_id (parent_window w), w)) ws)) (window_id (parent_window w))) = w"
    by simp
  with n c show "w \<in> set (map (\<lambda>wid. the (map_of (rev (map (\<lambda>w. (window_id (parent_window w), w)) ws)) wid))
                    (sorted_list_of_set (current_window_ids ws - P)))"
    by (force simp: finite_ids)
qed

lemma removed_not_created:
  assumes "w \<in> set (map (\<lambda>wid. the (map_of (rev (map (\<lambda>w. (window_id (parent_window w), w)) ws)) wid))
                    (sorted_list_of_set (current_window_ids ws - P)))"
  shows "window_id (parent_window w) \<notin> P"
proof -
  from assms obtain wid where wid: "wid \<in> current_window_ids ws" "wid \<notin> P"
    and w: "w = the (map_of (rev (map (\<lambda>w. (window_id (parent_window w), w)) ws)) wid)"
    by (auto simp: finite_ids)
  from wid(1) have "wid \<in> (\<lambda>w. window_id (parent_window w)) ` set ws"
    by (simp add: current_window_ids_def)
  from map_of_rev_keyed [OF this] w wid(2) show ?thesis
    by auto
qed

lemma query_windows_windows:
  assumes "distinct (map (\<lambda>w. window_id (parent_window w)) (windows s))"
  shows "windows (query_windows infos off s)
    = filter (\<lambda>w. window_id (parent_window w) \<in> parent_window_ids infos) (windows s)
      @ create (map (\<lambda>wid. the (map_of (rev (map (\<lambda>info. (window_id info, info)) infos)) wid))
                  (sorted_list_of_set (parent_window_ids infos - current_window_ids (windows s))))"
proof -
  let ?new = "create (map (\<lambda>wid. the (map_of (rev (map (\<lambda>info. (window_id info, info)) infos)) wid))
                  (sorted_list_of_set (parent_window_ids infos - current_window_ids (windows s))))"
  let ?R = "set (map (\<lambda>wid. the (map_of (rev (map (\<lambda>w. (window_id (parent_window w), w)) (windows s))) wid))
                    (sorted_list_of_set (current_window_ids (windows s) - parent_window_ids infos)))"
  have old: "filter (\<lambda>w. w \<notin> ?R) (windows s)
      = filter (\<lambda>w. window_id (parent_window w) \<in> parent_window_ids infos) (windows s)"
  proof (rule filter_cong [OF refl])
    fix w
    assume "w \<in> set (windows s)"
    from removed_windows [OF assms this, of "parent_window_ids infos"]
    show "(w \<notin> ?R) = (window_id (parent_window w) \<in> parent_window_ids infos)"
      by blast
  qed
  have "w \<notin> ?R" if "w \<in> set ?new" for w
  proof -
    from that have "window_id (parent_window w) \<in> set (map (\<lambda>w. window_id (parent_window w)) ?new)"
      by simp
    then have "window_id (parent_window w) \<in> parent_window_ids infos"
      by (simp only: created_ids) (simp add: finite_ids)
    with removed_not_created [of w "windows s" "parent_window_ids infos"] show ?thesis
      by blast
  qed
  then have new: "filter (\<lambda>w. w \<notin> ?R) ?new = ?new"
    by (simp only: filter_id_conv) blast
  have "windows (query_windows infos off s) = filter (\<lambda>w. w \<notin> ?R) (windows s @ ?new)"
    by (simp add: query_windows_unfold Let_def windows_draw_def)
  also have "\<dots> = filter (\<lambda>w. w \<notin> ?R) (windows s) @ filter (\<lambda>w. w \<notin> ?R) ?new"
    by (simp only: filter_append)
  finally show ?thesis
    by (simp only: old new)
qed

lemma query_windows_draws:
  "draws (query_windows infos off s)
    = (if parent_window_ids infos = current_window_ids (windows s) then draws s
       else draws s @ [(windows (query_windows infos off s), view (query_windows infos off s))])"
  by (simp add: query_windows_unfold Let_def windows_draw_def)

lemma query_windows_unchanged:
  assumes "parent_window_ids infos = current_window_ids (windows s)"
  shows "windows (query_windows infos off s) = windows s"
  using assms
  by (simp add: query_windows_unfold Let_def create_def)

text \<open>
  C8. When the set of parent window ids found equals the set of tracked ids,
  \<open>query_windows\<close> leaves the window list as it is and paints nothing. When the sets
  differ, it paints once, the windows and the view it leaves. When no two tracked
  windows share a parent (as for windows made by \<open>query_windows\<close> itself), the ids
  tracked afterwards are exactly the ids found: a tracked window stays if and only if
  its parent is still there, and every window that is new was created from one of the
  infos found, for a parent that was not tracked.
\<close>

theorem query_windows_repaint:
  "(parent_window_ids infos = current_window_ids (windows s) \<longrightarrow>
      windows (query_windows infos off s) = windows s
      \<and> draws (query_windows infos off s) = draws s)
   \<and> (parent_window_ids infos \<noteq> current_window_ids (windows s) \<longrightarrow>
      draws (query_windows infos off s)
      = draws s @ [(windows (query_windows infos off s), view (query_windows infos off s))])
   \<and> (distinct (map (\<lambda>w. window_id (parent_window w)) (windows s)) \<longrightarrow>
      current_window_ids (windows (query_windows infos off s)) = parent_window_ids infos
      \<and> distinct (map (\<lambda>w. window_id (parent_window w)) (windows (query_windows infos off s)))
      \<and> (\<forall>w \<in> set (windows s).
            (w \<in> set (windows (query_windows infos off s)))
            = (window_id (parent_window w) \<in> parent_window_ids infos))
      \<and> (\<forall>w \<in> set (windows (query_windows infos off s)). w \<notin> set (windows s) \<longrightarrow>
            parent_window w \<in> set infos
            \<and> window_id (parent_window w) \<notin> current_window_ids (windows s)))"
proof -
  have membership: "current_window_ids (windows (query_windows infos off s)) = parent_window_ids infos
      \<and> distinct (map (\<lambda>w. window_id (parent_window w)) (windows (query_windows infos off s)))
      \<and> (\<forall>w \<in> set (windows s).
            (w \<in> set (windows (query_windows infos off s)))
            = (window_id (parent_window w) \<in> parent_window_ids infos))
      \<and> (\<forall>w \<in> set (windows (query_windows infos off s)). w \<notin> set (windows s) \<longrightarrow>
            parent_window w \<in> set infos
            \<and> window_id (parent_window w) \<notin> current_window_ids (windows s))"
    if assms: "distinct (map (\<lambda>w. window_id (parent_window w)) (windows s))"
  proof -
  let ?P = "parent_window_ids infos" and ?C = "current_window_ids (windows s)"
  let ?new = "create (map (\<lambda>wid. the (map_of (rev (map (\<lambda>info. (window_id info, info)) infos)) wid))
                  (sorted_list_of_set (?P - ?C)))"
  let ?kept = "filter (\<lambda>w. window_id (parent_window w) \<in> ?P) (windows s)"
  note W = query_windows_windows [OF assms, of infos off]
  have new_ids: "map (\<lambda>w. window_id (parent_window w)) ?new = sorted_list_of_set (?P - ?C)"
    by (rule created_ids)
  have new_set: "window_id (parent_window w) \<in> ?P - ?C" if "w \<in> set ?new" for w
  proof -
    from that have "window_id (parent_window w) \<in> set (map (\<lambda>w. window_id (parent_window w)) ?new)"
      by simp
    then show ?thesis
      by (simp only: new_ids) (simp add: finite_ids)
  qed
  have kept_ids: "set (map (\<lambda>w. window_id (parent_window w)) ?kept) = ?C \<inter> ?P"
    by (auto simp: current_window_ids_def)
  have ids: "current_window_ids (windows (query_windows infos off s)) = ?P"
  proof -
    have "current_window_ids (windows (query_windows infos off s))
        = set (map (\<lambda>w. window_id (parent_window w)) ?kept)
          \<union> set (map (\<lambda>w. window_id (parent_window w)) ?new)"
      by (simp only: W current_window_ids_def map_append set_append)
    also have "\<dots> = (?C \<inter> ?P) \<union> (?P - ?C)"
      by (simp only: kept_ids new_ids) (simp add: finite_ids)
    finally show ?thesis by blast
  qed
  have dist: "distinct (map (\<lambda>w. window_id (parent_window w)) (windows (query_windows infos off s)))"
  proof -
    have "distinct (map (\<lambda>w. window_id (parent_window w)) ?kept)"
      using assms by (simp add: distinct_map_filter)
    moreover have "distinct (map (\<lambda>w. window_id (parent_window w)) ?new)"
      by (simp only: new_ids) simp
    moreover have "set (map (\<lambda>w. window_id (parent_window w)) ?kept)
        \<inter> set (map (\<lambda>w. window_id (parent_window w)) ?new) = {}"
      by (simp only: kept_ids new_ids) (auto simp: finite_ids)
    ultimately show ?thesis
      by (simp only: W map_append distinct_append)
  qed
  have old: "(w \<in> set (windows (query_windows infos off s))) = (window_id (parent_window w) \<in> ?P)"
    if "w \<in> set (windows s)" for w
  proof -
    from that have "window_id (parent_window w) \<in> ?C"
      by (simp add: current_window_ids_def)
    with new_set [of w] have "w \<notin> set ?new" by blast
    with that show ?thesis
      by (simp only: W set_append) simp
  qed
  have fresh: "parent_window w \<in> set infos \<and> window_id (parent_window w) \<notin> ?C"
    if "w \<in> set (windows (query_windows infos off s))" "w \<notin> set (windows s)" for w
  proof -
    from that have n: "w \<in> set ?new"
      by (simp only: W set_append) auto
    from created_from_infos [OF n] new_set [OF n] show ?thesis by blast
  qed
  from ids dist old fresh show ?thesis
    by blast
  qed
  from membership query_windows_draws [of infos off s] query_windows_unchanged [of infos s off]
  show ?thesis
    by simp
qed

theorem query_windows_repaint_witness:
  "distinct (map (\<lambda>w. window_id (parent_window w)) (windows ex_windows_state))
   \<and> parent_window_ids [ex_info 2, ex_info 3] \<noteq> current_window_ids (windows ex_windows_state)
   \<and> current_window_ids (windows (query_windows [ex_info 2, ex_info 3] (1, 1) ex_windows_state))
       = parent_window_ids [ex_info 2, ex_info 3]
   \<and> draws (query_windows [ex_info 2, ex_info 3] (1, 1) ex_windows_state)
       = draws ex_windows_state
         @ [(windows (query_windows [ex_info 2, ex_info 3] (1, 1) ex_windows_state),
             view (query_windows [ex_info 2, ex_info 3] (1, 1) ex_windows_state))]
   \<and> parent_window_ids [ex_info 2, ex_info 1] = current_window_ids (windows ex_windows_state)
   \<and> draws (query_windows [ex_info 2, ex_info 1] (1, 1) ex_windows_state) = draws ex_windows_state"
proof -
  have d: "distinct (map (\<lambda>w. window_id (parent_window w)) (windows ex_windows_state))"
    by (simp add: ex_windows_state_def ex_info_def)
  have c: "current_window_ids (windows ex_windows_state) = {1, 2}"
    by (simp add: current_window_ids_def ex_windows_state_def ex_info_def)
  have p: "parent_window_ids [ex_info 2, ex_info 3] = {2, 3}"
    "parent_window_ids [ex_info 2, ex_info 1] = {2, 1}"
    by (simp_all add: parent_window_ids_def ex_info_def)
  have ne: "parent_window_ids [ex_info 2, ex_info 3] \<noteq> current_window_ids (windows ex_windows_state)"
    unfolding c p by (simp add: doubleton_eq_iff)
  have eq: "parent_window_ids [ex_info 2, ex_info 1] = current_window_ids (windows ex_windows_state)"
    unfolding c p by blast
  from query_windows_repaint [of "[ex_info 2, ex_info 3]" ex_windows_state "(1, 1)"] d ne
  have a: "current_window_ids (windows (query_windows [ex_info 2, ex_info 3] (1, 1) ex_windows_state))
       = parent_window_ids [ex_info 2, ex_info 3]"
    and b: "draws (query_windows [ex_info 2, ex_info 3] (1, 1) ex_windows_state)
       = draws ex_windows_state
         @ [(windows (query_windows [ex_info 2, ex_info 3] (1, 1) ex_windows_state),
             view (query_windows [ex_info 2, ex_info 3] (1, 1) ex_windows_state))]"
    by blast+
  from query_windows_repaint [of "[ex_info 2, ex_info 1]" ex_windows_state "(1, 1)"] eq
  have u: "draws (query_windows [ex_info 2, ex_info 1] (1, 1) ex_windows_state) = draws ex_windows_state"
    by blast
  from d ne a b eq u show ?thesis
    by blast
qed

section \<open>The tmux hooks at shutdown\<close>

lemma is_space_blank: "is_space CHR '' ''"
  by (simp add: is_space_def)

lemma split_from_word:
  "\<forall>c \<in> set w. \<not> is_space c \<Longrightarrow> split_from cur (w @ rest) = split_from (cur @ w) rest"
  by (induction w arbitrary: cur) simp_all

lemma split_from_tokens:
  assumes "\<forall>c \<in> set cur. \<not> is_space c" and "w \<in> set (split_from cur s)"
  shows "w \<noteq> [] \<and> (\<forall>c \<in> set w. \<not> is_space c)"
  using assms
proof (induction s arbitrary: cur)
  case Nil
  then show ?case by (auto split: if_splits)
next
  case (Cons c s)
  show ?case
  proof (cases "is_space c")
    case True
    with Cons.prems have "w = cur \<and> cur \<noteq> [] \<or> w \<in> set (split_from [] s)"
      by (auto split: if_splits)
    then show ?thesis
    proof
      assume "w = cur \<and> cur \<noteq> []"
      with Cons.prems(1) show ?thesis by simp
    next
      assume "w \<in> set (split_from [] s)"
      with Cons.IH [of "[]"] show ?thesis by simp
    qed
  next
    case False
    with Cons.prems have "w \<in> set (split_from (cur @ [c]) s)" by simp
    moreover from False Cons.prems(1) have "\<forall>d \<in> set (cur @ [c]). \<not> is_space d" by simp
    ultimately show ?thesis using Cons.IH by blast
  qed
qed

lemma str_split_tokens:
  "w \<in> set (str_split s) \<Longrightarrow> w \<noteq> [] \<and> (\<forall>c \<in> set w. \<not> is_space c)"
  unfolding str_split_def using split_from_tokens [of "[]" w s] by simp

lemma split_join:
  assumes "\<forall>w \<in> set ws. w \<noteq> [] \<and> (\<forall>c \<in> set w. \<not> is_space c)"
  shows "str_split (join '' '' ws) = ws"
  using assms
proof (induction "'' ''" ws rule: join.induct)
  case 1
  show ?case by (simp add: str_split_def)
next
  case (2 a)
  then have "split_from [] (a @ []) = split_from ([] @ a) []"
    by (intro split_from_word) simp
  with 2 show ?case by (simp add: str_split_def)
next
  case (3 a b rest)
  from 3(2) have a: "a \<noteq> []" "\<forall>c \<in> set a. \<not> is_space c" by simp_all
  from 3 have IH: "split_from [] (join '' '' (b # rest)) = b # rest"
    by (simp add: str_split_def)
  have "split_from [] (a @ '' '' @ join '' '' (b # rest))
      = split_from ([] @ a) ('' '' @ join '' '' (b # rest))"
    using a(2) by (rule split_from_word)
  also have "\<dots> = a # split_from [] (join '' '' (b # rest))"
    using a(1) is_space_blank by simp
  finally show ?case by (simp add: str_split_def IH)
qed

lemma join_empty:
  assumes "\<forall>w \<in> set ws. w \<noteq> []"
  shows "(join sep ws = []) = (ws = [])"
  using assms by (induction sep ws rule: join.induct) simp_all

lemma update_hooks_file: "pid_file (update_hooks ws t) = join '' '' ws"
  by (simp add: update_hooks_def Let_def events_def register_hook_def unregister_hook_def)

lemma update_hooks_hooks:
  "hooks (update_hooks ws t) event =
    (if event \<in> set events
     then (if join '' '' ws \<noteq> [] then Some (command_template @ join '' '' ws) else None)
     else hooks t event)"
  by (simp add: update_hooks_def Let_def events_def register_hook_def unregister_hook_def)

text \<open>
  C9. After \<open>remove_hooks\<close>, the pids recorded in the lock file are those recorded
  before without the pid of the process. If none is left, no command is registered for
  any of the three events. Otherwise the command registered for each of them is
  \<open>kill -USR1\<close> followed by the text of the file, which lists the pids that are left.
  The hooks of other events are untouched.
\<close>

theorem remove_hooks_pid_set:
  "set (str_split (pid_file (remove_hooks own_pid t))) = set (str_split (pid_file t)) - {own_pid}
   \<and> (set (str_split (pid_file t)) - {own_pid} = {} \<longrightarrow>
        (\<forall>event \<in> set events. hooks (remove_hooks own_pid t) event = None))
   \<and> (set (str_split (pid_file t)) - {own_pid} \<noteq> {} \<longrightarrow>
        (\<forall>event \<in> set events. hooks (remove_hooks own_pid t) event
           = Some (command_template @ pid_file (remove_hooks own_pid t))))
   \<and> (\<forall>event. event \<notin> set events \<longrightarrow> hooks (remove_hooks own_pid t) event = hooks t event)"
proof -
  let ?ws = "removeAll own_pid (remdups (str_split (pid_file t)))"
  have tok: "\<forall>w \<in> set ?ws. w \<noteq> [] \<and> (\<forall>c \<in> set w. \<not> is_space c)"
    using str_split_tokens [of _ "pid_file t"] by auto
  have s: "set ?ws = set (str_split (pid_file t)) - {own_pid}"
    by simp
  have f: "pid_file (remove_hooks own_pid t) = join '' '' ?ws"
    by (simp add: remove_hooks_def Let_def update_hooks_file)
  have h: "hooks (remove_hooks own_pid t) event =
    (if event \<in> set events
     then (if join '' '' ?ws \<noteq> [] then Some (command_template @ join '' '' ?ws) else None)
     else hooks t event)" for event
    by (simp add: remove_hooks_def Let_def update_hooks_hooks)
  from tok have e: "(join '' '' ?ws = []) = (?ws = [])"
    by (intro join_empty) blast
  have e': "(?ws = []) = (set (str_split (pid_file t)) - {own_pid} = {})"
    using s by (metis set_empty)
  have "set (str_split (pid_file (remove_hooks own_pid t))) = set ?ws"
    by (simp only: f split_join [OF tok])
  with s have 1: "set (str_split (pid_file (remove_hooks own_pid t)))
      = set (str_split (pid_file t)) - {own_pid}"
    by simp
  from h e e' f 1 show ?thesis
    by simp
qed

theorem remove_hooks_pid_set_witness:
  "set (str_split (pid_file (ex_tmux ''100 200''))) - {''100''} \<noteq> {}
   \<and> ''pane-mode-changed'' \<in> set events
   \<and> hooks (remove_hooks ''100'' (ex_tmux ''100 200'')) ''pane-mode-changed''
       = Some (command_template @ pid_file (remove_hooks ''100'' (ex_tmux ''100 200'')))
   \<and> set (str_split (pid_file (remove_hooks ''100'' (ex_tmux ''100 200'')))) = {''200''}
   \<and> set (str_split (pid_file (ex_tmux ''100''))) - {''100''} = {}
   \<and> hooks (remove_hooks ''100'' (ex_tmux ''100'')) ''pane-mode-changed'' = None"
proof -
  have s2: "str_split (pid_file (ex_tmux ''100 200'')) = [''100'', ''200'']"
    by (simp add: ex_tmux_def str_split_def is_space_def)
  have s1: "str_split (pid_file (ex_tmux ''100'')) = [''100'']"
    by (simp add: ex_tmux_def str_split_def is_space_def)
  have ne: "set (str_split (pid_file (ex_tmux ''100 200''))) - {''100''} \<noteq> {}"
    by (simp add: s2)
  have em: "set (str_split (pid_file (ex_tmux ''100''))) - {''100''} = {}"
    by (simp add: s1)
  have ev: "''pane-mode-changed'' \<in> set events"
    by (simp add: events_def)
  from remove_hooks_pid_set [of "''100''" "ex_tmux ''100 200''"] ne ev
  have a: "hooks (remove_hooks ''100'' (ex_tmux ''100 200'')) ''pane-mode-changed''
       = Some (command_template @ pid_file (remove_hooks ''100'' (ex_tmux ''100 200'')))"
    by blast
  from remove_hooks_pid_set [of "''100''" "ex_tmux ''100 200''"]
  have "set (str_split (pid_file (remove_hooks ''100'' (ex_tmux ''100 200''))))
      = set (str_split (pid_file (ex_tmux ''100 200''))) - {''100''}"
    by blast
  then have b: "set (str_split (pid_file (remove_hooks ''100'' (ex_tmux ''100 200'')))) = {''200''}"
    by (simp add: s2)
  from remove_hooks_pid_set [of "''100''" "ex_tmux ''100''"] em ev
  have c: "hooks (remove_hooks ''100'' (ex_tmux ''100'')) ''pane-mode-changed'' = None"
    by blast
  from ne ev a b em c show ?thesis
    by blast
qed

end
